theory Spec2Isabelle
  imports Main "HOL-Library.Word" "HOL-Library.Monad_Syntax"
begin

unbundle bit_operations_syntax

section \<open>Data model\<close>

text \<open>
  The types of \<^verbatim>\<open>main.go\<close>. A packet is an opcode and an opaque payload; the opcode is
  an \<^verbatim>\<open>int32\<close> that the program only compares with constants, so it is an \<open>int\<close>.
  A \<^verbatim>\<open>time.Duration\<close> is a signed 64-bit count of nanoseconds whose subtraction wraps
  around: a \<open>64 word\<close>, read with \<open>sint\<close>. A \<^verbatim>\<open>Double\<close> is kept as the 64 bits of its
  IEEE-754 encoding, which is what the wire carries.
\<close>

type_synonym byte = "8 word"
type_synonym Duration = "64 word"
type_synonym Double = "64 word"

record Packet =
  ID :: int
  Data :: "byte list"

record recordedPacket =
  Packet :: Packet
  RelatTime :: Duration

record SerializableSession =
  Packets :: "recordedPacket list"
  LoginX :: Double
  LoginY :: Double
  LoginZ :: Double

text \<open>
  \<^verbatim>\<open>Session\<close> embeds \<^verbatim>\<open>SerializableSession\<close>. Its \<^verbatim>\<open>StartTime\<close> is only ever read through
  \<^verbatim>\<open>time.Since(s.StartTime)\<close>; that reading is an argument of the functions that take it.
  What happens on the two connections is kept in the relay and replay states below.
\<close>

record Session = SerializableSession +
  State :: int

definition handshaking :: int where "handshaking = 0"
definition status :: int where "status = 1"
definition login :: int where "login = 2"
definition play :: int where "play = 3"

section \<open>The packet codec\<close>

text \<open>
  Modelled from the spec: the packet codec (\<^verbatim>\<open>Packet.Scan\<close>, \<^verbatim>\<open>Marshal\<close> and the field types
  \<^verbatim>\<open>Long\<close>, \<^verbatim>\<open>Double\<close>, \<^verbatim>\<open>Float\<close>, \<^verbatim>\<open>Byte\<close>, \<^verbatim>\<open>VarInt\<close>, \<^verbatim>\<open>String\<close>) belongs to the
  imported protocol library and is not among the sources. The spec says that the
  interpreted packets are decoded for their fields and that an answer carries the
  identical id. The fields follow the wire format of the protocol: fixed-width fields are
  big-endian, a \<^verbatim>\<open>VarInt\<close> is a sequence of 7-bit groups, least significant first, with
  the top bit of a byte set when another byte follows, and a \<^verbatim>\<open>String\<close> is its length
  as a \<^verbatim>\<open>VarInt\<close> and then its bytes. \<^verbatim>\<open>Scan\<close> decodes its fields from left to right,
  stores each decoded field at once, and stops with an error at the first field that the
  payload is too short for.
\<close>

definition readN :: "nat \<Rightarrow> byte list \<Rightarrow> (byte list \<times> byte list) option" where
  "readN n bs = (if length bs < n then None else Some (take n bs, drop n bs))"

definition be64 :: "byte list \<Rightarrow> 64 word" where
  "be64 bs = foldl (\<lambda>acc b. push_bit 8 acc OR ucast b) 0 bs"

definition be32 :: "byte list \<Rightarrow> 32 word" where
  "be32 bs = foldl (\<lambda>acc b. push_bit 8 acc OR ucast b) 0 bs"

definition readLong :: "byte list \<Rightarrow> (64 word \<times> byte list) option" where
  "readLong bs = map_option (\<lambda>(h, r). (be64 h, r)) (readN 8 bs)"

definition readDouble :: "byte list \<Rightarrow> (Double \<times> byte list) option" where
  "readDouble bs = readLong bs"

definition readFloat :: "byte list \<Rightarrow> (32 word \<times> byte list) option" where
  "readFloat bs = map_option (\<lambda>(h, r). (be32 h, r)) (readN 4 bs)"

definition readByte :: "byte list \<Rightarrow> (byte \<times> byte list) option" where
  "readByte bs = (case bs of [] \<Rightarrow> None | b # r \<Rightarrow> Some (b, r))"

fun readVarIntFrom :: "nat \<Rightarrow> 32 word \<Rightarrow> byte list \<Rightarrow> (32 word \<times> byte list) option" where
  "readVarIntFrom i n [] = None"
| "readVarIntFrom i n (sec # r) =
     (let n' = n OR push_bit (7 * i) (ucast (sec AND 0x7F)) in
      if 5 \<le> i then None
      else if sec AND 0x80 = 0 then Some (n', r)
      else readVarIntFrom (i + 1) n' r)"

definition readVarInt :: "byte list \<Rightarrow> (32 word \<times> byte list) option" where
  "readVarInt bs = readVarIntFrom 0 0 bs"

definition encLong :: "64 word \<Rightarrow> byte list" where
  "encLong v = map (\<lambda>i. ucast (drop_bit (8 * i) v)) [7, 6, 5, 4, 3, 2, 1, 0]"

function encVarInt :: "32 word \<Rightarrow> byte list" where
  "encVarInt num =
     (let b = num AND 0x7F; num' = drop_bit 7 num in
      if num' \<noteq> 0 then ucast (b OR 0x80) # encVarInt num' else [ucast b])"
  by pat_completeness auto
termination
proof (relation "measure unat")
  show "wf (measure unat)" by simp
next
  fix num b :: "32 word" and num' :: "32 word"
  assume eq: "num' = drop_bit 7 num" and nz: "num' \<noteq> 0"
  have "unat num' = unat num div 128"
    unfolding eq using unat_drop_bit_eq [of 7 num] by (simp add: drop_bit_eq_div)
  moreover have "unat num' \<noteq> 0" using nz by (simp add: unat_eq_0)
  ultimately have "unat num' < unat num"
    by simp
  then show "(num', num) \<in> measure unat" by simp
qed

definition encString :: "string \<Rightarrow> byte list" where
  "encString str = encVarInt (of_nat (length str)) @ map (\<lambda>c. of_nat (of_char c)) str"

definition Marshal :: "int \<Rightarrow> byte list list \<Rightarrow> Packet" where
  "Marshal pid fs = \<lparr>ID = pid, Data = concat fs\<rparr>"

text \<open>\<^verbatim>\<open>packet.Scan(&keepID)\<close>: one \<^verbatim>\<open>Long\<close>.\<close>

definition scanKeepAlive :: "byte list \<Rightarrow> 64 word option" where
  "scanKeepAlive bs = map_option fst (readLong bs)"

text \<open>\<^verbatim>\<open>packet.Scan(&x, &y, &z, &yaw, &pitch, &flags, &tpID)\<close>: only \<open>tpID\<close> is used.\<close>

definition scanPositionAndLook :: "byte list \<Rightarrow> 32 word option" where
  "scanPositionAndLook bs =
     do {
       (x, r1) \<leftarrow> readDouble bs;
       (y, r2) \<leftarrow> readDouble r1;
       (z, r3) \<leftarrow> readDouble r2;
       (yaw, r4) \<leftarrow> readFloat r3;
       (pitch, r5) \<leftarrow> readFloat r4;
       (flags, r6) \<leftarrow> readByte r5;
       (tpID, r7) \<leftarrow> readVarInt r6;
       Some tpID
     }"

text \<open>
  \<^verbatim>\<open>packet.Scan(&s.LoginX, &s.LoginY, &s.LoginZ)\<close>: the three targets are fields of the
  session, so a coordinate decoded before a later one fails stays stored. The result is
  whether the scan succeeded, and the session.
\<close>

definition scanLoginPosition :: "byte list \<Rightarrow> 'a Session_scheme \<Rightarrow> bool \<times> 'a Session_scheme" where
  "scanLoginPosition bs s =
     (case readDouble bs of
        None \<Rightarrow> (False, s)
      | Some (x, r1) \<Rightarrow>
          let s1 = s\<lparr>LoginX := x\<rparr> in
          (case readDouble r1 of
             None \<Rightarrow> (False, s1)
           | Some (y, r2) \<Rightarrow>
               let s2 = s1\<lparr>LoginY := y\<rparr> in
               (case readDouble r2 of
                  None \<Rightarrow> (False, s2)
                | Some (z, r3) \<Rightarrow> (True, s2\<lparr>LoginZ := z\<rparr>))))"

text \<open>
  A \<^verbatim>\<open>Double\<close> compared with the constant \<open>0\<close>: true of both zeros of IEEE-754, that is
  when every bit but the sign is clear.
\<close>

definition isZero :: "Double \<Rightarrow> bool" where
  "isZero d = (d AND 0x7FFFFFFFFFFFFFFF = 0)"

section \<open>The phase state machine and the recorder\<close>

definition setStateFromServerbound :: "int \<Rightarrow> 'a Session_scheme \<Rightarrow> 'a Session_scheme" where
  "setStateFromServerbound pid s =
     (if State s = handshaking then (if pid = 0x00 then s\<lparr>State := login\<rparr> else s) else s)"

definition setStateFromClientbound :: "int \<Rightarrow> 'a Session_scheme \<Rightarrow> 'a Session_scheme" where
  "setStateFromClientbound pid s =
     (if State s = login then (if pid = 0x02 then s\<lparr>State := play\<rparr> else s) else s)"

text \<open>\<open>since\<close> is the value of \<^verbatim>\<open>time.Since(s.StartTime)\<close> when the packet is processed.\<close>

definition proccessServerbound :: "Duration \<Rightarrow> Packet \<Rightarrow> 'a Session_scheme \<Rightarrow> 'a Session_scheme" where
  "proccessServerbound since packet s =
     (if State s = play \<and> (ID packet = 0x10 \<or> ID packet = 0x00) then s
      else
        let s' = setStateFromServerbound (ID packet) s;
            recorded = \<lparr>Packet = packet, RelatTime = since\<rparr>
        in s'\<lparr>Packets := Packets s' @ [recorded]\<rparr>)"

text \<open>
  The relay starts \<^verbatim>\<open>proccessServerbound\<close> as a goroutine of its own for every packet,
  and nothing synchronises these goroutines with each other or with the pumps. So the
  function is also given step by step, a step being one access to \<^verbatim>\<open>s.State\<close> or
  \<^verbatim>\<open>s.Packets\<close>: the read of \<^verbatim>\<open>s.State\<close> in \<^verbatim>\<open>if s.State == play\<close>; the read of \<^verbatim>\<open>s.State\<close>
  in \<^verbatim>\<open>if s.State == handshaking\<close> of \<^verbatim>\<open>setStateFromServerbound\<close>; the store
  \<^verbatim>\<open>s.State = login\<close>; the building of \<^verbatim>\<open>recorded\<close> and the read of \<^verbatim>\<open>s.Packets\<close> that
  \<^verbatim>\<open>append\<close> starts from; and the store of the appended slice into \<^verbatim>\<open>s.Packets\<close>. The
  state of a goroutine says which access comes next, and holds what it has read.
\<close>

datatype recorderState =
    AtFilter
  | AtStateTest
  | AtStateStore
  | AtRead
  | AtStore "recordedPacket list" recordedPacket
  | Ended

fun proccessServerboundStep ::
  "Duration \<Rightarrow> Packet \<Rightarrow> recorderState \<Rightarrow> 'a Session_scheme \<Rightarrow> recorderState \<times> 'a Session_scheme" where
  "proccessServerboundStep since packet AtFilter s =
     (if State s = play \<and> (ID packet = 0x10 \<or> ID packet = 0x00) then (Ended, s)
      else (AtStateTest, s))"
| "proccessServerboundStep since packet AtStateTest s =
     (if State s = handshaking then (if ID packet = 0x00 then (AtStateStore, s) else (AtRead, s))
      else (AtRead, s))"
| "proccessServerboundStep since packet AtStateStore s = (AtRead, s\<lparr>State := login\<rparr>)"
| "proccessServerboundStep since packet AtRead s =
     (AtStore (Packets s) \<lparr>Packet = packet, RelatTime = since\<rparr>, s)"
| "proccessServerboundStep since packet (AtStore old recorded) s =
     (Ended, s\<lparr>Packets := old @ [recorded]\<rparr>)"
| "proccessServerboundStep since packet Ended s = (Ended, s)"

text \<open>\<open>n\<close> steps of one goroutine with nothing else running in between.\<close>

fun proccessServerboundSteps ::
  "nat \<Rightarrow> Duration \<Rightarrow> Packet \<Rightarrow> recorderState \<times> 'a Session_scheme \<Rightarrow> recorderState \<times> 'a Session_scheme" where
  "proccessServerboundSteps 0 since packet c = c"
| "proccessServerboundSteps (Suc n) since packet c =
     proccessServerboundSteps n since packet (proccessServerboundStep since packet (fst c) (snd c))"

definition proccessClientbound :: "Packet \<Rightarrow> 'a Session_scheme \<Rightarrow> 'a Session_scheme" where
  "proccessClientbound packet s0 =
     (let s = setStateFromClientbound (ID packet) s0 in
      if State s = play \<and> ID packet = 0x34
         \<and> isZero (LoginX s) \<and> isZero (LoginY s) \<and> isZero (LoginZ s)
      then snd (scanLoginPosition (Data packet) s)
      else s)"

section \<open>The relay engine\<close>

text \<open>
  \<^verbatim>\<open>StreamBidirectional\<close> starts the two pumps as goroutines and waits on \<^verbatim>\<open>errs\<close>; the
  serverbound pump starts one more goroutine for every packet it reads
  (\<^verbatim>\<open>go s.proccessServerbound(packet)\<close>). The relay state holds the session, the goroutines
  started for the packets, each with its packet and its state, in the order they were
  started, the two channels (both of capacity 2) and where each of the three long-lived
  goroutines stands. A run is a list of turns: the scheduler picks who moves, and the
  environment supplies what a read or a write on a connection returns. A turn of a pump
  is one pass through its \<^verbatim>\<open>for\<close> loop, up to the end of the pass or to a send on
  \<^verbatim>\<open>errs\<close> that has to wait. A turn of a goroutine started for a packet is one step of
  \<^verbatim>\<open>proccessServerbound\<close>, so that the accesses of these goroutines to the session
  interleave with each other and with the passes of the pumps.

  Modelled from the spec: the connection type of the imported library is not among the
  sources. The spec gives its interface: reading returns a packet, the end of the stream
  or another I/O error; writing returns success or an error; and there is a close. The
  outcome of each call is an argument of the turn that makes it: \<open>Inl EOF\<close> is an error
  for which \<^verbatim>\<open>errors.Is(err, io.EOF)\<close> holds, \<open>Inl OtherError\<close> any other error.
\<close>

datatype ioerr = EOF | OtherError

datatype pumpState =
    Looping    \<comment> \<open>at the head of the \<^verbatim>\<open>for\<close> loop\<close>
  | Blocked    \<comment> \<open>waiting in \<^verbatim>\<open>errs <- err\<close> for room in the channel\<close>
  | Returned   \<comment> \<open>left the function through \<^verbatim>\<open>return\<close>\<close>

datatype engineState = AwaitErr | Signal1 | Signal2 | CloseBoth | Finished

record Relay =
  sess :: Session
  spawned :: "(Packet \<times> recorderState) list"
  errs :: "ioerr list"
  closer :: nat
  c2s :: pumpState
  s2c :: pumpState
  engine :: engineState
  toServer :: "Packet list"
  toClient :: "Packet list"
  clientClosed :: nat
  serverClosed :: nat
  logged :: "string list"

definition errsCap :: nat where "errsCap = 2"
definition closerCap :: nat where "closerCap = 2"

text \<open>
  \<^verbatim>\<open>errs <- err\<close> followed by \<^verbatim>\<open>break\<close>, in the serverbound pump. The \<^verbatim>\<open>break\<close> stands
  inside a \<^verbatim>\<open>select\<close>, so it leaves the \<^verbatim>\<open>select\<close> and the \<^verbatim>\<open>for\<close> loop goes on with its
  next pass.
\<close>

definition c2sSignal :: "Relay \<Rightarrow> Relay" where
  "c2sSignal w =
     (if length (errs w) < errsCap then w\<lparr>errs := errs w @ [EOF], c2s := Looping\<rparr>
      else w\<lparr>c2s := Blocked\<rparr>)"

definition s2cSignal :: "Relay \<Rightarrow> Relay" where
  "s2cSignal w =
     (if length (errs w) < errsCap then w\<lparr>errs := errs w @ [EOF], s2c := Looping\<rparr>
      else w\<lparr>s2c := Blocked\<rparr>)"

definition logf :: "string \<Rightarrow> Relay \<Rightarrow> Relay" where
  "logf msg w = w\<lparr>logged := logged w @ [msg]\<rparr>"

text \<open>
  One turn of \<^verbatim>\<open>ClientToServer\<close>. \<open>rd\<close> is what \<^verbatim>\<open>s.Client.ReadPacket()\<close> returns if
  it is called, \<open>wr\<close> the error of \<^verbatim>\<open>s.Server.WritePacket(packet)\<close> if it is called.
\<close>

definition ClientToServer :: "ioerr + Packet \<Rightarrow> ioerr option \<Rightarrow> Relay \<Rightarrow> Relay" where
  "ClientToServer rd wr w =
     (case c2s w of
        Returned \<Rightarrow> w
      | Blocked \<Rightarrow> c2sSignal w
      | Looping \<Rightarrow>
          if 0 < closer w then w\<lparr>closer := closer w - 1, c2s := Returned\<rparr>
          else
            (case rd of
               Inl err \<Rightarrow>
                 if err = EOF then c2sSignal w
                 else logf ''Unable to read packet from client'' w
             | Inr packet \<Rightarrow>
                 let w1 = w\<lparr>spawned := spawned w @ [(packet, AtFilter)]\<rparr> in
                 (case wr of
                    None \<Rightarrow> w1\<lparr>toServer := toServer w1 @ [packet]\<rparr>
                  | Some err \<Rightarrow>
                      if err = EOF then c2sSignal w1
                      else logf ''Unable to send packet to server'' w1)))"

text \<open>One turn of \<^verbatim>\<open>ServerToClient\<close>; it calls \<^verbatim>\<open>proccessClientbound\<close> itself.\<close>

definition ServerToClient :: "ioerr + Packet \<Rightarrow> ioerr option \<Rightarrow> Relay \<Rightarrow> Relay" where
  "ServerToClient rd wr w =
     (case s2c w of
        Returned \<Rightarrow> w
      | Blocked \<Rightarrow> s2cSignal w
      | Looping \<Rightarrow>
          if 0 < closer w then w\<lparr>closer := closer w - 1, s2c := Returned\<rparr>
          else
            (case rd of
               Inl err \<Rightarrow>
                 if err = EOF then s2cSignal w
                 else logf ''Unable to read packet from server'' w
             | Inr packet \<Rightarrow>
                 let w1 = w\<lparr>sess := proccessClientbound packet (sess w)\<rparr> in
                 (case wr of
                    None \<Rightarrow> w1\<lparr>toClient := toClient w1 @ [packet]\<rparr>
                  | Some err \<Rightarrow>
                      if err = EOF then s2cSignal w1
                      else logf ''Unable to send packet to client'' w1)))"

text \<open>
  The \<open>i\<close>-th of the goroutines started by \<^verbatim>\<open>go s.proccessServerbound(packet)\<close> takes
  one step. \<open>since\<close> is the reading of \<^verbatim>\<open>time.Since(s.StartTime)\<close> if the step takes
  one. A goroutine that has ended stays in the list, so that the numbering is stable.
\<close>

definition runSpawned :: "nat \<Rightarrow> Duration \<Rightarrow> Relay \<Rightarrow> Relay" where
  "runSpawned i since w =
     (if i < length (spawned w)
      then
        (case spawned w ! i of
           (packet, st) \<Rightarrow>
             (case proccessServerboundStep since packet st (sess w) of
                (st', s') \<Rightarrow> w\<lparr>sess := s', spawned := (spawned w)[i := (packet, st')]\<rparr>))
      else w)"

text \<open>
  One turn of \<^verbatim>\<open>StreamBidirectional\<close> after it has started the pumps: the receive from
  \<^verbatim>\<open>errs\<close>, the two sends on \<^verbatim>\<open>closer\<close>, and \<^verbatim>\<open>s.Close()\<close>, which closes the client and
  the server connection.
\<close>

definition StreamBidirectional :: "Relay \<Rightarrow> Relay" where
  "StreamBidirectional w =
     (case engine w of
        AwaitErr \<Rightarrow> (case errs w of [] \<Rightarrow> w | e # es \<Rightarrow> w\<lparr>errs := es, engine := Signal1\<rparr>)
      | Signal1 \<Rightarrow>
          if closer w < closerCap then w\<lparr>closer := closer w + 1, engine := Signal2\<rparr> else w
      | Signal2 \<Rightarrow>
          if closer w < closerCap then w\<lparr>closer := closer w + 1, engine := CloseBoth\<rparr> else w
      | CloseBoth \<Rightarrow>
          w\<lparr>clientClosed := clientClosed w + 1, serverClosed := serverClosed w + 1,
            engine := Finished\<rparr>
      | Finished \<Rightarrow> w)"

datatype turn =
    C2S "ioerr + Packet" "ioerr option"
  | S2C "ioerr + Packet" "ioerr option"
  | Go nat Duration
  | Engine

fun relayTurn :: "Relay \<Rightarrow> turn \<Rightarrow> Relay" where
  "relayTurn w (C2S rd wr) = ClientToServer rd wr w"
| "relayTurn w (S2C rd wr) = ServerToClient rd wr w"
| "relayTurn w (Go i since) = runSpawned i since w"
| "relayTurn w Engine = StreamBidirectional w"

definition relayRun :: "turn list \<Rightarrow> Relay \<Rightarrow> Relay" where
  "relayRun ts w = foldl relayTurn w ts"

text \<open>
  The session \<^verbatim>\<open>NewSession\<close> returns (phase \<^verbatim>\<open>handshaking\<close>, nothing captured) and the
  relay state when \<^verbatim>\<open>StreamBidirectional\<close> has started both pumps.
\<close>

definition NewSession :: Session where
  "NewSession = \<lparr>Packets = [], LoginX = 0, LoginY = 0, LoginZ = 0, State = handshaking\<rparr>"

definition relayStart :: "Session \<Rightarrow> Relay" where
  "relayStart s =
     \<lparr>sess = s, spawned = [], errs = [], closer = 0, c2s = Looping, s2c = Looping,
      engine = AwaitErr, toServer = [], toClient = [], clientClosed = 0, serverClosed = 0,
      logged = []\<rparr>"

text \<open>
  A state of the relay in which the serverbound pump waits in \<^verbatim>\<open>errs <- err\<close>, the channel
  is full, and the only receiver, \<^verbatim>\<open>StreamBidirectional\<close>, has finished.
\<close>

definition stuck :: "Relay \<Rightarrow> bool" where
  "stuck w =
     (c2s w = Blocked \<and> length (errs w) = errsCap \<and> engine w = Finished \<and> s2c w = Returned)"

section \<open>The replay engine\<close>

text \<open>
  \<^verbatim>\<open>ReplaySession\<close> embeds \<^verbatim>\<open>Session\<close> and adds the flag \<^verbatim>\<open>wasPorted\<close>. What the two
  goroutines of a replay do to the outside is kept as a list of effects, oldest first:
  every call of \<^verbatim>\<open>s.Server.WritePacket\<close> with the place in the program that made it and
  whether it returned no error, every \<^verbatim>\<open>time.Sleep\<close> with its argument, and the closing of
  the connection.

  Modelled from the spec: the connection is the external collaborator of the relay
  engine above; whether a write returns an error is an argument of the pass that makes
  it, and a write is recorded whatever its outcome.
\<close>

datatype origin = Teleport | Replayed | KeepAliveResponse | TeleportConfirm

datatype effect = Wrote origin Packet bool | Slept Duration | ClosedServer

record ReplaySession = Session +
  wasPorted :: bool
  effects :: "effect list"

definition WritePacket :: "origin \<Rightarrow> Packet \<Rightarrow> bool \<Rightarrow> 'a ReplaySession_scheme \<Rightarrow> 'a ReplaySession_scheme" where
  "WritePacket who packet ok s = s\<lparr>effects := effects s @ [Wrote who packet ok]\<rparr>"

definition Sleep :: "Duration \<Rightarrow> 'a ReplaySession_scheme \<Rightarrow> 'a ReplaySession_scheme" where
  "Sleep d s = s\<lparr>effects := effects s @ [Slept d]\<rparr>"

text \<open>
  \<^verbatim>\<open>fmt.Sprintf("/teleport %f %f %f", s.LoginX, s.LoginY, s.LoginZ)\<close>. How \<^verbatim>\<open>%f\<close> prints
  a \<^verbatim>\<open>Double\<close> is the argument \<open>fmtF\<close>.
\<close>

definition teleportMessage :: "(Double \<Rightarrow> string) \<Rightarrow> 'a Session_scheme \<Rightarrow> string" where
  "teleportMessage fmtF s =
     ''/teleport '' @ fmtF (LoginX s) @ '' '' @ fmtF (LoginY s) @ '' '' @ fmtF (LoginZ s)"

definition teleportPacket :: "(Double \<Rightarrow> string) \<Rightarrow> 'a Session_scheme \<Rightarrow> Packet" where
  "teleportPacket fmtF s = Marshal 0x03 [encString (teleportMessage fmtF s)]"

text \<open>\<open>ok\<close> is whether the \<^verbatim>\<open>WritePacket\<close> of the teleport packet returns no error.\<close>

definition portToLogin :: "(Double \<Rightarrow> string) \<Rightarrow> bool \<Rightarrow> 'a ReplaySession_scheme \<Rightarrow> 'a ReplaySession_scheme" where
  "portToLogin fmtF ok s =
     (let packet = teleportPacket fmtF s;
          s1 = WritePacket Teleport packet ok s
      in if \<not> ok then s1 else s1\<lparr>wasPorted := True\<rparr>)"

text \<open>
  The body of the loop of \<^verbatim>\<open>replayPackets\<close> for one recorded packet. \<open>since\<close> is the
  reading of \<^verbatim>\<open>time.Since(s.StartTime)\<close>, \<open>okTp\<close> the outcome of the teleport write if
  there is one, \<open>okPk\<close> the outcome of the write of the packet. The result says whether
  the loop goes on (\<open>False\<close> is the \<^verbatim>\<open>break\<close>).
\<close>

definition inWorldFamily :: "int \<Rightarrow> bool" where
  "inWorldFamily pid = (0x12 \<le> pid \<and> pid \<le> 0x16)"

definition replayPacket ::
  "(Double \<Rightarrow> string) \<Rightarrow> Duration \<Rightarrow> bool \<Rightarrow> bool \<Rightarrow> recordedPacket \<Rightarrow>
   'a ReplaySession_scheme \<Rightarrow> bool \<times> 'a ReplaySession_scheme" where
  "replayPacket fmtF since okTp okPk packet s =
     (let s1 = (if State s = play \<and> \<not> wasPorted s \<and> inWorldFamily (ID (Packet packet))
                then portToLogin fmtF okTp s else s);
          waitTime = RelatTime packet - since;
          s2 = (if 0 <s waitTime then Sleep waitTime s1 else s1);
          s3 = setStateFromServerbound (ID (Packet packet)) s2;
          s4 = WritePacket Replayed (Packet packet) okPk s3
      in (okPk, s4))"

text \<open>
  One pass through the loop of \<^verbatim>\<open>respondToServer\<close>. \<open>rd\<close> is the packet read from the
  backend (\<open>None\<close> when the read fails), \<open>ok\<close> the outcome of the write of the answer if
  there is one. \<open>Inl\<close> is a pass cut short by \<^verbatim>\<open>continue\<close>, \<open>Inr\<close> one that goes on.
\<close>

definition answerKeepAlive :: "Packet \<Rightarrow> bool \<Rightarrow> 'a ReplaySession_scheme \<Rightarrow> 'a ReplaySession_scheme + 'a ReplaySession_scheme" where
  "answerKeepAlive packet ok s =
     (if ID packet = 0x1F then
        (case scanKeepAlive (Data packet) of
           None \<Rightarrow> Inl s
         | Some keepID \<Rightarrow>
             let response = Marshal 0x10 [encLong keepID];
                 s1 = WritePacket KeepAliveResponse response ok s
             in if \<not> ok then Inl s1 else Inr s1)
      else Inr s)"

definition answerTeleport :: "Packet \<Rightarrow> bool \<Rightarrow> 'a ReplaySession_scheme \<Rightarrow> 'a ReplaySession_scheme + 'a ReplaySession_scheme" where
  "answerTeleport packet ok s =
     (if ID packet = 0x34 then
        (case scanPositionAndLook (Data packet) of
           None \<Rightarrow> Inl s
         | Some tpID \<Rightarrow>
             let response = Marshal 0x00 [encVarInt tpID];
                 s1 = WritePacket TeleportConfirm response ok s
             in if \<not> ok then Inl s1 else Inr s1)
      else Inr s)"

definition respondToPacket :: "Packet \<Rightarrow> bool \<Rightarrow> 'a ReplaySession_scheme \<Rightarrow> 'a ReplaySession_scheme" where
  "respondToPacket packet ok s =
     (if State s = play then
        (case answerKeepAlive packet ok s of
           Inl s1 \<Rightarrow> s1
         | Inr s1 \<Rightarrow>
             (case answerTeleport packet ok s1 of
                Inl s2 \<Rightarrow> s2
              | Inr s2 \<Rightarrow> setStateFromClientbound (ID packet) s2))
      else setStateFromClientbound (ID packet) s)"

text \<open>
  The replay as a whole: the sender (\<^verbatim>\<open>replayPackets\<close>) and the responder
  (\<^verbatim>\<open>respondToServer\<close>) share the session; \<open>pending\<close> are the recorded packets the
  sender's \<^verbatim>\<open>range\<close> loop has not reached yet. A run is a list of turns, a turn being one
  pass of one of the two loops.
\<close>

record Replay =
  rsess :: ReplaySession
  pending :: "recordedPacket list"
  senderDone :: bool
  responderDone :: bool

definition closeServer :: "Replay \<Rightarrow> Replay" where
  "closeServer w =
     w\<lparr>rsess := (rsess w)\<lparr>effects := effects (rsess w) @ [ClosedServer]\<rparr>, senderDone := True\<rparr>"

definition replayPackets :: "(Double \<Rightarrow> string) \<Rightarrow> Duration \<Rightarrow> bool \<Rightarrow> bool \<Rightarrow> Replay \<Rightarrow> Replay" where
  "replayPackets fmtF since okTp okPk w =
     (if senderDone w then w
      else
        (case pending w of
           [] \<Rightarrow> closeServer w
         | packet # rest \<Rightarrow>
             (case replayPacket fmtF since okTp okPk packet (rsess w) of
                (goOn, s') \<Rightarrow>
                  let w' = w\<lparr>rsess := s', pending := rest\<rparr> in
                  if goOn then w' else closeServer w')))"

definition respondToServer :: "Packet option \<Rightarrow> bool \<Rightarrow> Replay \<Rightarrow> Replay" where
  "respondToServer rd ok w =
     (if responderDone w then w
      else
        (case rd of
           None \<Rightarrow> w\<lparr>responderDone := True\<rparr>
         | Some packet \<Rightarrow> w\<lparr>rsess := respondToPacket packet ok (rsess w)\<rparr>))"

datatype replayTurn =
    Sender Duration bool bool
  | Responder "Packet option" bool

fun replayStep :: "(Double \<Rightarrow> string) \<Rightarrow> Replay \<Rightarrow> replayTurn \<Rightarrow> Replay" where
  "replayStep fmtF w (Sender since okTp okPk) = replayPackets fmtF since okTp okPk w"
| "replayStep fmtF w (Responder rd ok) = respondToServer rd ok w"

definition replayRun :: "(Double \<Rightarrow> string) \<Rightarrow> replayTurn list \<Rightarrow> Replay \<Rightarrow> Replay" where
  "replayRun fmtF ts w = foldl (replayStep fmtF) w ts"

text \<open>
  \<^verbatim>\<open>NewReplaySession\<close>: the record read from the file, every other field at its zero
  value (phase \<^verbatim>\<open>handshaking\<close>, flag unset), nothing done yet.
\<close>

definition NewReplaySession :: "SerializableSession \<Rightarrow> Replay" where
  "NewReplaySession f =
     \<lparr>rsess = \<lparr>Packets = Packets f, LoginX = LoginX f, LoginY = LoginY f, LoginZ = LoginZ f,
               State = handshaking, wasPorted = False, effects = []\<rparr>,
      pending = Packets f, senderDone = False, responderDone = False\<rparr>"

section \<open>The login position\<close>

definition loginPosition :: "'a Session_scheme \<Rightarrow> Double \<times> Double \<times> Double" where
  "loginPosition s = (LoginX s, LoginY s, LoginZ s)"

text \<open>The test of \<^verbatim>\<open>proccessClientbound\<close> for a position not captured yet.\<close>

definition uncaptured :: "'a Session_scheme \<Rightarrow> bool" where
  "uncaptured s = (isZero (LoginX s) \<and> isZero (LoginY s) \<and> isZero (LoginZ s))"

text \<open>The three coordinates at the head of a payload that is long enough for them.\<close>

definition positionOf :: "byte list \<Rightarrow> Double \<times> Double \<times> Double" where
  "positionOf bs = (be64 (take 8 bs), be64 (take 8 (drop 8 bs)), be64 (take 8 (drop 16 bs)))"

section \<open>Reading the effects of a replay\<close>

text \<open>A write of the synthetic teleport packet, whatever its outcome.\<close>

fun isTeleport :: "effect \<Rightarrow> bool" where
  "isTeleport (Wrote Teleport p ok) = True"
| "isTeleport _ = False"

text \<open>A write of the synthetic teleport packet that returned no error.\<close>

fun isInjected :: "effect \<Rightarrow> bool" where
  "isInjected (Wrote Teleport p ok) = ok"
| "isInjected _ = False"

fun isKeepAlive :: "effect \<Rightarrow> bool" where
  "isKeepAlive (Wrote KeepAliveResponse p ok) = True"
| "isKeepAlive _ = False"

fun isSleep :: "effect \<Rightarrow> bool" where
  "isSleep (Slept d) = True"
| "isSleep _ = False"

text \<open>A turn of the responder that reads a keep-alive request.\<close>

fun isRequest :: "replayTurn \<Rightarrow> bool" where
  "isRequest (Responder (Some p) ok) = (ID p = 0x1F)"
| "isRequest _ = False"

text \<open>What a step added to the effects of the session \<open>s\<close> it started from.\<close>

definition added :: "'a ReplaySession_scheme \<Rightarrow> 'b ReplaySession_scheme \<Rightarrow> effect list" where
  "added s s' = drop (length (effects s)) (effects s')"

text \<open>The flag and the successful injections agree.\<close>

definition injectedOnce :: "Replay \<Rightarrow> bool" where
  "injectedOnce w =
     (length (filter isInjected (effects (rsess w))) = (if wasPorted (rsess w) then 1 else 0))"

section \<open>Persisting the session record\<close>

text \<open>
  Modelled from the spec: \<^verbatim>\<open>SaveToFile\<close> and \<^verbatim>\<open>ReadPacketsFromFile\<close> call the JSON codec
  and the file functions of the standard library, which are not among the sources. The
  spec leaves the literal on-disk encoding out and fixes the logical schema: the ordered
  packet log, each entry with opcode, raw payload bytes and relative-time offset, and
  the three coordinates of the login position. The codec is modelled from its
  documentation, on the JSON value it writes and reads instead of the text of that value.

  Writing: a struct becomes an object with one member for each exported field, under the
  field's name, in the order of the fields; a slice becomes an array and a nil slice
  \<^verbatim>\<open>null\<close>; a byte slice becomes a string holding its base64 encoding; an integer becomes
  a number; a \<^verbatim>\<open>float64\<close> becomes a number, and a \<^verbatim>\<open>float64\<close> that is NaN or an infinity
  makes the whole call fail with an error.

  Reading: the members of an object are taken in order; a member is stored into the
  field whose name is its key, letter case aside, and a member with no such field is
  skipped; \<^verbatim>\<open>null\<close> sets a slice to nil and leaves any other field as it is; an array read
  into a slice replaces the slice, each element read into a zero value; a string read
  into a byte slice is decoded from base64, line breaks in it skipped; a value of the
  wrong kind, a number out of the range of its field and a string that is no base64 are
  errors.

  A number is kept as the Go value it was written from: an integer, or the bits of a
  \<^verbatim>\<open>float64\<close>. By the documentation an integer is written in full and read back exactly,
  and a \<^verbatim>\<open>float64\<close> is written with the fewest digits from which reading gives back the
  same \<^verbatim>\<open>float64\<close>. What reading makes of a number written from an integer in a
  \<^verbatim>\<open>float64\<close> field, and of one written from a \<^verbatim>\<open>float64\<close> in an integer field, depends
  on the digits; it is the argument \<open>nt\<close>.
\<close>

datatype json =
    JNull
  | JInt int
  | JFloat Double
  | JString string
  | JArray "json list"
  | JObject "(string \<times> json) list"

datatype jsonError = UnsupportedValue | UnmarshalType | CorruptInput

record numberText =
  floatOfInt :: "int \<Rightarrow> Double"
  intOfFloat :: "Double \<Rightarrow> int option"

text \<open>Neither NaN nor an infinity: the eleven exponent bits are not all set.\<close>

definition isFinite :: "Double \<Rightarrow> bool" where
  "isFinite d = (drop_bit 52 d AND 0x7FF \<noteq> 0x7FF)"

definition inInt32 :: "int \<Rightarrow> bool" where
  "inInt32 n = (- (2 ^ 31) \<le> n \<and> n < 2 ^ 31)"

definition inInt64 :: "int \<Rightarrow> bool" where
  "inInt64 n = (- (2 ^ 63) \<le> n \<and> n < 2 ^ 63)"

subsection \<open>Base64\<close>

definition b64chars :: string where
  "b64chars = ''ABCDEFGHIJKLMNOPQRSTUVWXYZabcdefghijklmnopqrstuvwxyz0123456789+/''"

definition b64char :: "nat \<Rightarrow> char" where
  "b64char i = b64chars ! i"

definition b64index :: "char \<Rightarrow> nat option" where
  "b64index c = map_of (zip b64chars [0..<64]) c"

fun base64 :: "byte list \<Rightarrow> string" where
  "base64 (a # b # c # rest) =
     [b64char (unat a div 4),
      b64char ((unat a mod 4) * 16 + unat b div 16),
      b64char ((unat b mod 16) * 4 + unat c div 64),
      b64char (unat c mod 64)] @ base64 rest"
| "base64 [a, b] =
     [b64char (unat a div 4),
      b64char ((unat a mod 4) * 16 + unat b div 16),
      b64char ((unat b mod 16) * 4),
      CHR ''='']"
| "base64 [a] =
     [b64char (unat a div 4),
      b64char ((unat a mod 4) * 16),
      CHR ''='',
      CHR ''='']"
| "base64 [] = []"

fun unbase64Groups :: "string \<Rightarrow> byte list option" where
  "unbase64Groups [] = Some []"
| "unbase64Groups (p # q # r # t # rest) =
     (case (b64index p, b64index q) of
        (Some i, Some j) \<Rightarrow>
          if r = CHR ''='' then
            (if t = CHR ''='' \<and> rest = [] then Some [of_nat (i * 4 + j div 16)] else None)
          else
            (case b64index r of
               None \<Rightarrow> None
             | Some k \<Rightarrow>
                 if t = CHR ''='' then
                   (if rest = []
                    then Some [of_nat (i * 4 + j div 16), of_nat ((j mod 16) * 16 + k div 4)]
                    else None)
                 else
                   (case b64index t of
                      None \<Rightarrow> None
                    | Some l \<Rightarrow>
                        (case unbase64Groups rest of
                           None \<Rightarrow> None
                         | Some bs \<Rightarrow>
                             Some (of_nat (i * 4 + j div 16)
                               # of_nat ((j mod 16) * 16 + k div 4)
                               # of_nat ((k mod 4) * 64 + l) # bs))))
      | _ \<Rightarrow> None)"
| "unbase64Groups _ = None"

definition isLineBreak :: "char \<Rightarrow> bool" where
  "isLineBreak c = (c = CHR 0x0A \<or> c = CHR 0x0D)"

definition unbase64 :: "string \<Rightarrow> byte list option" where
  "unbase64 str = unbase64Groups (filter (\<lambda>c. \<not> isLineBreak c) str)"

subsection \<open>Writing\<close>

definition marshalFloat :: "Double \<Rightarrow> jsonError + json" where
  "marshalFloat d = (if isFinite d then Inr (JFloat d) else Inl UnsupportedValue)"

definition marshalPacket :: "Packet \<Rightarrow> json" where
  "marshalPacket p = JObject [(''ID'', JInt (ID p)), (''Data'', JString (base64 (Data p)))]"

definition marshalRecorded :: "recordedPacket \<Rightarrow> json" where
  "marshalRecorded r =
     JObject [(''Packet'', marshalPacket (Packet r)), (''RelatTime'', JInt (sint (RelatTime r)))]"

definition marshalPackets :: "recordedPacket list \<Rightarrow> json" where
  "marshalPackets rs = (if rs = [] then JNull else JArray (map marshalRecorded rs))"

text \<open>\<^verbatim>\<open>json.Marshal(s.SerializableSession)\<close>.\<close>

definition jsonMarshal :: "'a SerializableSession_scheme \<Rightarrow> jsonError + json" where
  "jsonMarshal s =
     (case marshalFloat (LoginX s) of
        Inl e \<Rightarrow> Inl e
      | Inr x \<Rightarrow>
          (case marshalFloat (LoginY s) of
             Inl e \<Rightarrow> Inl e
           | Inr y \<Rightarrow>
               (case marshalFloat (LoginZ s) of
                  Inl e \<Rightarrow> Inl e
                | Inr z \<Rightarrow>
                    Inr (JObject [(''Packets'', marshalPackets (Packets s)),
                                  (''LoginX'', x), (''LoginY'', y), (''LoginZ'', z)]))))"

subsection \<open>Reading\<close>

definition lowerChar :: "char \<Rightarrow> char" where
  "lowerChar c =
     (case map_of (zip ''ABCDEFGHIJKLMNOPQRSTUVWXYZ'' ''abcdefghijklmnopqrstuvwxyz'') c of
        None \<Rightarrow> c
      | Some l \<Rightarrow> l)"

definition sameKey :: "string \<Rightarrow> string \<Rightarrow> bool" where
  "sameKey k name = (map lowerChar k = map lowerChar name)"

fun unmarshalInt32 :: "numberText \<Rightarrow> json \<Rightarrow> int \<Rightarrow> jsonError + int" where
  "unmarshalInt32 nt JNull old = Inr old"
| "unmarshalInt32 nt (JInt n) old = (if inInt32 n then Inr n else Inl UnmarshalType)"
| "unmarshalInt32 nt (JFloat d) old =
     (case intOfFloat nt d of
        None \<Rightarrow> Inl UnmarshalType
      | Some n \<Rightarrow> if inInt32 n then Inr n else Inl UnmarshalType)"
| "unmarshalInt32 nt _ old = Inl UnmarshalType"

fun unmarshalInt64 :: "numberText \<Rightarrow> json \<Rightarrow> Duration \<Rightarrow> jsonError + Duration" where
  "unmarshalInt64 nt JNull old = Inr old"
| "unmarshalInt64 nt (JInt n) old = (if inInt64 n then Inr (word_of_int n) else Inl UnmarshalType)"
| "unmarshalInt64 nt (JFloat d) old =
     (case intOfFloat nt d of
        None \<Rightarrow> Inl UnmarshalType
      | Some n \<Rightarrow> if inInt64 n then Inr (word_of_int n) else Inl UnmarshalType)"
| "unmarshalInt64 nt _ old = Inl UnmarshalType"

fun unmarshalFloat :: "numberText \<Rightarrow> json \<Rightarrow> Double \<Rightarrow> jsonError + Double" where
  "unmarshalFloat nt JNull old = Inr old"
| "unmarshalFloat nt (JFloat d) old = Inr d"
| "unmarshalFloat nt (JInt n) old = Inr (floatOfInt nt n)"
| "unmarshalFloat nt _ old = Inl UnmarshalType"

fun unmarshalBytes :: "json \<Rightarrow> jsonError + byte list" where
  "unmarshalBytes JNull = Inr []"
| "unmarshalBytes (JString str) =
     (case unbase64 str of None \<Rightarrow> Inl CorruptInput | Some bs \<Rightarrow> Inr bs)"
| "unmarshalBytes _ = Inl UnmarshalType"

text \<open>The members of an object, in order, each stored by \<open>field\<close>; the first error ends it.\<close>

fun unmarshalMembers ::
  "(string \<Rightarrow> json \<Rightarrow> 'a \<Rightarrow> jsonError + 'a) \<Rightarrow> (string \<times> json) list \<Rightarrow> 'a \<Rightarrow> jsonError + 'a" where
  "unmarshalMembers field [] a = Inr a"
| "unmarshalMembers field ((k, v) # ms) a =
     (case field k v a of
        Inl e \<Rightarrow> Inl e
      | Inr a' \<Rightarrow> unmarshalMembers field ms a')"

definition packetField :: "numberText \<Rightarrow> string \<Rightarrow> json \<Rightarrow> Packet \<Rightarrow> jsonError + Packet" where
  "packetField nt k v p =
     (if sameKey k ''ID'' then
        (case unmarshalInt32 nt v (ID p) of Inl e \<Rightarrow> Inl e | Inr n \<Rightarrow> Inr (p\<lparr>ID := n\<rparr>))
      else if sameKey k ''Data'' then
        (case unmarshalBytes v of Inl e \<Rightarrow> Inl e | Inr bs \<Rightarrow> Inr (p\<lparr>Data := bs\<rparr>))
      else Inr p)"

fun unmarshalPacket :: "numberText \<Rightarrow> json \<Rightarrow> Packet \<Rightarrow> jsonError + Packet" where
  "unmarshalPacket nt JNull p = Inr p"
| "unmarshalPacket nt (JObject ms) p = unmarshalMembers (packetField nt) ms p"
| "unmarshalPacket nt _ p = Inl UnmarshalType"

definition recordedField ::
  "numberText \<Rightarrow> string \<Rightarrow> json \<Rightarrow> recordedPacket \<Rightarrow> jsonError + recordedPacket" where
  "recordedField nt k v r =
     (if sameKey k ''Packet'' then
        (case unmarshalPacket nt v (Packet r) of
           Inl e \<Rightarrow> Inl e
         | Inr p \<Rightarrow> Inr (r\<lparr>Packet := p\<rparr>))
      else if sameKey k ''RelatTime'' then
        (case unmarshalInt64 nt v (RelatTime r) of
           Inl e \<Rightarrow> Inl e
         | Inr t \<Rightarrow> Inr (r\<lparr>RelatTime := t\<rparr>))
      else Inr r)"

text \<open>The zero value of \<^verbatim>\<open>recordedPacket\<close>.\<close>

definition zeroRecorded :: recordedPacket where
  "zeroRecorded = \<lparr>Packet = \<lparr>ID = 0, Data = []\<rparr>, RelatTime = 0\<rparr>"

fun unmarshalRecorded :: "numberText \<Rightarrow> json \<Rightarrow> recordedPacket \<Rightarrow> jsonError + recordedPacket" where
  "unmarshalRecorded nt JNull r = Inr r"
| "unmarshalRecorded nt (JObject ms) r = unmarshalMembers (recordedField nt) ms r"
| "unmarshalRecorded nt _ r = Inl UnmarshalType"

fun unmarshalElements :: "numberText \<Rightarrow> json list \<Rightarrow> jsonError + recordedPacket list" where
  "unmarshalElements nt [] = Inr []"
| "unmarshalElements nt (v # vs) =
     (case unmarshalRecorded nt v zeroRecorded of
        Inl e \<Rightarrow> Inl e
      | Inr r \<Rightarrow>
          (case unmarshalElements nt vs of
             Inl e \<Rightarrow> Inl e
           | Inr rs \<Rightarrow> Inr (r # rs)))"

fun unmarshalPackets :: "numberText \<Rightarrow> json \<Rightarrow> jsonError + recordedPacket list" where
  "unmarshalPackets nt JNull = Inr []"
| "unmarshalPackets nt (JArray vs) = unmarshalElements nt vs"
| "unmarshalPackets nt _ = Inl UnmarshalType"

definition sessionField ::
  "numberText \<Rightarrow> string \<Rightarrow> json \<Rightarrow> 'a SerializableSession_scheme \<Rightarrow>
   jsonError + 'a SerializableSession_scheme" where
  "sessionField nt k v s =
     (if sameKey k ''Packets'' then
        (case unmarshalPackets nt v of Inl e \<Rightarrow> Inl e | Inr rs \<Rightarrow> Inr (s\<lparr>Packets := rs\<rparr>))
      else if sameKey k ''LoginX'' then
        (case unmarshalFloat nt v (LoginX s) of Inl e \<Rightarrow> Inl e | Inr d \<Rightarrow> Inr (s\<lparr>LoginX := d\<rparr>))
      else if sameKey k ''LoginY'' then
        (case unmarshalFloat nt v (LoginY s) of Inl e \<Rightarrow> Inl e | Inr d \<Rightarrow> Inr (s\<lparr>LoginY := d\<rparr>))
      else if sameKey k ''LoginZ'' then
        (case unmarshalFloat nt v (LoginZ s) of Inl e \<Rightarrow> Inl e | Inr d \<Rightarrow> Inr (s\<lparr>LoginZ := d\<rparr>))
      else Inr s)"

text \<open>\<^verbatim>\<open>json.Unmarshal(data, &s.SerializableSession)\<close>.\<close>

fun jsonUnmarshal ::
  "numberText \<Rightarrow> json \<Rightarrow> 'a SerializableSession_scheme \<Rightarrow> jsonError + 'a SerializableSession_scheme" where
  "jsonUnmarshal nt JNull s = Inr s"
| "jsonUnmarshal nt (JObject ms) s = unmarshalMembers (sessionField nt) ms s"
| "jsonUnmarshal nt _ s = Inl UnmarshalType"

subsection \<open>The two functions of the program\<close>

text \<open>
  What a file holds: a whole document, or the beginning of one after a write that
  failed. The files are a map from names.
\<close>

datatype content = Document json | Partial

text \<open>
  \<^verbatim>\<open>SaveToFile\<close>. \<open>created\<close> and \<open>written\<close> say whether \<^verbatim>\<open>os.Create\<close> and
  \<^verbatim>\<open>resultFile.Write\<close> return no error. The result is the line logged, if any, and the
  files.
\<close>

definition SaveToFile ::
  "bool \<Rightarrow> bool \<Rightarrow> string \<Rightarrow> 'a Session_scheme \<Rightarrow> (string \<rightharpoonup> content) \<Rightarrow>
   string option \<times> (string \<rightharpoonup> content)" where
  "SaveToFile created written filename s files =
     (case jsonMarshal s of
        Inl err \<Rightarrow> (Some ''Unable to marshal recorded packets to json'', files)
      | Inr jsonPackets \<Rightarrow>
          if \<not> created
          then (Some ''Unable to create file for recorded packets'', files)
          else if \<not> written
          then (Some ''Unable to write recorded packets to file'', files(filename \<mapsto> Partial))
          else (None, files(filename \<mapsto> Document jsonPackets)))"

text \<open>
  \<^verbatim>\<open>ReadPacketsFromFile\<close>. \<open>opened\<close> and \<open>readAll\<close> say whether \<^verbatim>\<open>os.Open\<close> of a file
  that is there and \<^verbatim>\<open>ioutil.ReadAll\<close> return no error. \<open>Inl\<close> is the message of
  \<^verbatim>\<open>log.Fatalf\<close>, which ends the program.
\<close>

definition ReadPacketsFromFile ::
  "numberText \<Rightarrow> bool \<Rightarrow> bool \<Rightarrow> string \<Rightarrow> 'a Session_scheme \<Rightarrow> (string \<rightharpoonup> content) \<Rightarrow>
   string + 'a Session_scheme" where
  "ReadPacketsFromFile nt opened readAll filename s files =
     (case files filename of
        None \<Rightarrow> Inl ''Unable to open recorded packets file''
      | Some data \<Rightarrow>
          if \<not> opened then Inl ''Unable to open recorded packets file''
          else if \<not> readAll then Inl ''Unable to read recorded packets file''
          else
            (case data of
               Partial \<Rightarrow> Inl ''Unable to unmarshal recorded packets from file''
             | Document doc \<Rightarrow>
                 (case jsonUnmarshal nt doc s of
                    Inl err \<Rightarrow> Inl ''Unable to unmarshal recorded packets from file''
                  | Inr s' \<Rightarrow> Inr s')))"

section \<open>Example inputs\<close>

text \<open>
  Two position-and-look packets (three doubles, two floats, a flag byte, a teleport id):
  one at the origin, one at \<open>(10, 64, -5)\<close>; and a session in the \<^verbatim>\<open>play\<close> phase that has
  captured nothing yet.
\<close>

definition zeroPosition :: Packet where
  "zeroPosition = \<lparr>ID = 0x34, Data =
     [0, 0, 0, 0, 0, 0, 0, 0] @ [0, 0, 0, 0, 0, 0, 0, 0] @ [0, 0, 0, 0, 0, 0, 0, 0]
     @ [0, 0, 0, 0, 0, 0, 0, 0, 0] @ [1]\<rparr>"

definition laterPosition :: Packet where
  "laterPosition = \<lparr>ID = 0x34, Data =
     [0x40, 0x24, 0, 0, 0, 0, 0, 0] @ [0x40, 0x50, 0, 0, 0, 0, 0, 0] @ [0xC0, 0x14, 0, 0, 0, 0, 0, 0]
     @ [0, 0, 0, 0, 0, 0, 0, 0, 0] @ [2]\<rparr>"

definition playing :: Session where
  "playing = NewSession\<lparr>State := play\<rparr>"

text \<open>
  A recorded session: the handshake, then three packets of the world family; the login
  position is \<open>(10, 64, -5)\<close>. \<open>exampleFmt\<close> prints these coordinates as \<^verbatim>\<open>%f\<close> does.
\<close>

definition exampleFmt :: "Double \<Rightarrow> string" where
  "exampleFmt d =
     (if d = 0x4024000000000000 then ''10.000000''
      else if d = 0x4050000000000000 then ''64.000000''
      else if d = 0xC014000000000000 then ''-5.000000''
      else ''0.000000'')"

definition worldPackets :: "recordedPacket list" where
  "worldPackets =
     [\<lparr>Packet = \<lparr>ID = 0x12, Data = [1]\<rparr>, RelatTime = 100\<rparr>,
      \<lparr>Packet = \<lparr>ID = 0x14, Data = [2]\<rparr>, RelatTime = 200\<rparr>,
      \<lparr>Packet = \<lparr>ID = 0x16, Data = [3]\<rparr>, RelatTime = 300\<rparr>]"

definition exampleRecord :: SerializableSession where
  "exampleRecord =
     \<lparr>Packets = \<lparr>Packet = \<lparr>ID = 0x00, Data = [4]\<rparr>, RelatTime = 0\<rparr> # worldPackets,
      LoginX = 0x4024000000000000, LoginY = 0x4050000000000000, LoginZ = 0xC014000000000000\<rparr>"

text \<open>
  The replay of \<open>exampleRecord\<close> once the handshake is sent and the backend has answered
  with login success (\<open>0x02\<close>): the phase is \<^verbatim>\<open>play\<close> and the world packets are next.
\<close>

definition inPlay :: Replay where
  "inPlay = replayRun exampleFmt
     [Sender 0 True True, Responder (Some \<lparr>ID = 0x02, Data = []\<rparr>) True]
     (NewReplaySession exampleRecord)"

text \<open>A keep-alive request with id \<open>0x0102030405060708\<close>.\<close>

definition keepAliveRequest :: Packet where
  "keepAliveRequest = \<lparr>ID = 0x1F, Data = [1, 2, 3, 4, 5, 6, 7, 8]\<rparr>"

text \<open>A packet recorded half a second (in nanoseconds) after the start.\<close>

definition halfSecond :: recordedPacket where
  "halfSecond = \<lparr>Packet = \<lparr>ID = 0x00, Data = [4]\<rparr>, RelatTime = 500000000\<rparr>"

text \<open>
  Two packets a client sends one after the other at the start of a session: the handshake
  and the login start, both with opcode \<open>0x00\<close>.
\<close>

definition handshakePacket :: Packet where
  "handshakePacket = \<lparr>ID = 0x00, Data = [4]\<rparr>"

definition loginStartPacket :: Packet where
  "loginStartPacket = \<lparr>ID = 0x00, Data = [5]\<rparr>"

text \<open>
  A schedule of the relay in which the client has closed its connection, so that every
  \<^verbatim>\<open>s.Client.ReadPacket()\<close> returns \<^verbatim>\<open>io.EOF\<close>: the serverbound pump runs four passes
  while \<^verbatim>\<open>StreamBidirectional\<close> gets to take one value from \<^verbatim>\<open>errs\<close>; then
  \<^verbatim>\<open>StreamBidirectional\<close> sends on \<^verbatim>\<open>closer\<close> twice and closes, and the clientbound pump
  takes its turn.
\<close>

definition eofSchedule :: "turn list" where
  "eofSchedule =
     [C2S (Inl EOF) None, C2S (Inl EOF) None, Engine, C2S (Inl EOF) None, C2S (Inl EOF) None,
      Engine, Engine, Engine, S2C (Inl EOF) None]"

definition afterEof :: Relay where
  "afterEof = relayRun eofSchedule (relayStart NewSession)"

text \<open>
  Two chat packets sent in the \<^verbatim>\<open>play\<close> phase, and a schedule of the relay in which both
  are read and forwarded, the goroutine of each takes its three steps up to the store of
  the appended log (the first with the time reading 10, the second with 20), and then
  each does its store.
\<close>

definition chatPacket :: Packet where
  "chatPacket = \<lparr>ID = 0x03, Data = [1]\<rparr>"

definition otherChatPacket :: Packet where
  "otherChatPacket = \<lparr>ID = 0x03, Data = [2]\<rparr>"

definition lostAppendSchedule :: "turn list" where
  "lostAppendSchedule =
     [C2S (Inr chatPacket) None, C2S (Inr otherChatPacket) None,
      Go 0 10, Go 0 10, Go 0 10, Go 1 20, Go 1 20, Go 1 20,
      Go 0 10, Go 1 20]"

text \<open>
  A schedule of the relay at the start of a session: the handshake and the login start
  are read and forwarded; the goroutine of each takes two steps, up to the store of the
  phase; the first does its store; the clientbound pump reads the login success.
\<close>

definition racingHandshake :: "turn list" where
  "racingHandshake =
     [C2S (Inr handshakePacket) None, C2S (Inr loginStartPacket) None,
      Go 0 0, Go 0 0, Go 1 0, Go 1 0,
      Go 0 0,
      S2C (Inr \<lparr>ID = 0x02, Data = []\<rparr>) None]"

text \<open>
  A session in \<^verbatim>\<open>play\<close> that has recorded a chat packet and then seen a position packet
  whose first coordinate is a NaN; and a way of reading numbers across kinds.
\<close>

definition nanPosition :: Packet where
  "nanPosition = \<lparr>ID = 0x34, Data =
     [0x7F, 0xF8, 0, 0, 0, 0, 0, 0] @ [0x40, 0x50, 0, 0, 0, 0, 0, 0] @ [0xC0, 0x14, 0, 0, 0, 0, 0, 0]
     @ [0, 0, 0, 0, 0, 0, 0, 0, 0] @ [3]\<rparr>"

definition nanSession :: Session where
  "nanSession = proccessClientbound nanPosition (proccessServerbound 5 chatPacket playing)"

definition goodSession :: Session where
  "goodSession = proccessClientbound laterPosition (proccessServerbound 5 chatPacket playing)"

definition exampleNumberText :: numberText where
  "exampleNumberText = \<lparr>floatOfInt = (\<lambda>n. 0), intOfFloat = (\<lambda>d. None)\<rparr>"

text \<open>The zero value of \<^verbatim>\<open>ReplaySession\<close>, into which \<^verbatim>\<open>NewReplaySession\<close> reads the file.\<close>

definition freshReplaySession :: ReplaySession where
  "freshReplaySession =
     \<lparr>Packets = [], LoginX = 0, LoginY = 0, LoginZ = 0, State = handshaking,
      wasPorted = False, effects = []\<rparr>"

section \<open>What the observers keep unchanged\<close>

lemma scanLoginPosition_keeps:
  "Packets (snd (scanLoginPosition bs s)) = Packets s"
  "State (snd (scanLoginPosition bs s)) = State s"
  by (auto simp: scanLoginPosition_def Let_def split: option.splits prod.splits)

lemma setState_Packets:
  "Packets (setStateFromServerbound pid s) = Packets s"
  "Packets (setStateFromClientbound pid s) = Packets s"
  by (simp_all add: setStateFromServerbound_def setStateFromClientbound_def)

lemma proccessClientbound_Packets:
  "Packets (proccessClientbound q s) = Packets s"
  by (simp add: proccessClientbound_def Let_def scanLoginPosition_keeps setState_Packets)

lemma ServerToClient_Packets:
  "Packets (sess (ServerToClient rd wr w)) = Packets (sess w)"
  by (auto simp: ServerToClient_def s2cSignal_def logf_def Let_def proccessClientbound_Packets
      split: pumpState.splits sum.splits option.splits)

lemma runSpawned_keeps [simp]:
  "errs (runSpawned i since w) = errs w"
  "closer (runSpawned i since w) = closer w"
  "c2s (runSpawned i since w) = c2s w"
  "s2c (runSpawned i since w) = s2c w"
  "engine (runSpawned i since w) = engine w"
  "toServer (runSpawned i since w) = toServer w"
  "toClient (runSpawned i since w) = toClient w"
  "clientClosed (runSpawned i since w) = clientClosed w"
  "serverClosed (runSpawned i since w) = serverClosed w"
  "logged (runSpawned i since w) = logged w"
  by (simp_all add: runSpawned_def split: prod.splits)

lemma loginPosition_proccessServerboundStep:
  "loginPosition (snd (proccessServerboundStep since packet st s)) = loginPosition s"
  by (cases st) (simp_all add: loginPosition_def)

lemma loginPosition_runSpawned [simp]:
  "loginPosition (sess (runSpawned i since w)) = loginPosition (sess w)"
  using loginPosition_proccessServerboundStep [of since "fst (spawned w ! i)" "snd (spawned w ! i)" "sess w"]
  by (auto simp: runSpawned_def split: prod.splits)

section \<open>The phase along a run\<close>

lemma State_setStateFromServerbound:
  "State (setStateFromServerbound pid s)
     = (if State s = handshaking \<and> pid = 0x00 then login else State s)"
  by (simp add: setStateFromServerbound_def)

lemma State_setStateFromClientbound:
  "State (setStateFromClientbound pid s)
     = (if State s = login \<and> pid = 0x02 then play else State s)"
  by (simp add: setStateFromClientbound_def)

lemma State_proccessServerbound:
  "State (proccessServerbound since packet s)
     = (if State s = handshaking \<and> ID packet = 0x00 then login else State s)"
  by (simp add: proccessServerbound_def Let_def State_setStateFromServerbound
      handshaking_def play_def)

lemma State_proccessClientbound:
  "State (proccessClientbound packet s)
     = (if State s = login \<and> ID packet = 0x02 then play else State s)"
  by (simp add: proccessClientbound_def Let_def State_setStateFromClientbound
      scanLoginPosition_keeps)

lemma State_WritePacket [simp]: "State (WritePacket who p ok s) = State s"
  by (simp add: WritePacket_def)

lemma State_Sleep [simp]: "State (Sleep d s) = State s"
  by (simp add: Sleep_def)

lemma State_portToLogin [simp]: "State (portToLogin fmtF ok s) = State s"
  by (simp add: portToLogin_def Let_def)

lemma State_replayPacket:
  "State (snd (replayPacket fmtF since okTp okPk packet s))
     = (if State s = handshaking \<and> ID (Packet packet) = 0x00 then login else State s)"
  by (simp add: replayPacket_def Let_def State_setStateFromServerbound)

lemma State_respondToPacket:
  "State (respondToPacket packet ok s)
     = (if State s = login \<and> ID packet = 0x02 then play else State s)"
  by (auto simp: respondToPacket_def answerKeepAlive_def answerTeleport_def Let_def
      State_setStateFromClientbound login_def play_def split: sum.splits option.splits if_splits)

lemma State_replayStep: "State (rsess w) \<le> State (rsess (replayStep fmtF w t))"
proof (cases t)
  case (Sender since okTp okPk)
  have "State s \<le> State (snd (replayPacket fmtF since okTp okPk p s))" for p and s :: ReplaySession
    by (simp add: State_replayPacket handshaking_def login_def)
  then show ?thesis using Sender
    by (auto simp: replayPackets_def closeServer_def Let_def split: list.splits prod.splits)
      (metis snd_conv)+
next
  case (Responder rd ok)
  then show ?thesis
    by (auto simp: respondToServer_def State_respondToPacket login_def play_def split: option.splits)
qed

lemma State_replayRun: "State (rsess w) \<le> State (rsess (replayRun fmtF ts w))"
  unfolding replayRun_def
proof (induction ts arbitrary: w)
  case Nil
  show ?case by simp
next
  case (Cons t ts)
  have "State (rsess w) \<le> State (rsess (replayStep fmtF w t))" by (rule State_replayStep)
  also have "\<dots> \<le> State (rsess (foldl (replayStep fmtF) (replayStep fmtF w t) ts))"
    by (rule Cons.IH)
  finally show ?case by simp
qed

section \<open>One recorder goroutine on its own\<close>

text \<open>
  When nothing else touches the session between the steps of a goroutine, its steps
  amount to the function \<^verbatim>\<open>proccessServerbound\<close> as written: five steps reach the end on
  every path. On its own the function leaves the session as it was in \<^verbatim>\<open>play\<close> for the
  opcodes \<open>0x10\<close> and \<open>0x00\<close>, and appends one entry at the end of the log otherwise.
\<close>

lemma proccessServerbound_alone:
  "proccessServerboundSteps 5 since packet (AtFilter, s)
     = (Ended, proccessServerbound since packet s)"
  by (simp add: numeral_eq_Suc proccessServerbound_def setStateFromServerbound_def Let_def
      handshaking_def login_def play_def)

lemma proccessServerbound_filter:
  "(State s = play \<and> (ID packet = 0x10 \<or> ID packet = 0x00) \<longrightarrow>
      proccessServerbound since packet s = s)
   \<and> (\<not> (State s = play \<and> (ID packet = 0x10 \<or> ID packet = 0x00)) \<longrightarrow>
      Packets (proccessServerbound since packet s)
        = Packets s @ [\<lparr>Packet = packet, RelatTime = since\<rparr>])
   \<and> Packets (proccessClientbound q s) = Packets s
   \<and> Packets (sess (ServerToClient rd wr w)) = Packets (sess w)"
  by (simp add: proccessServerbound_def Let_def setState_Packets proccessClientbound_Packets
      ServerToClient_Packets)

section \<open>The capture filter\<close>

text \<open>
  Claim C1 says that every serverbound packet that is not filtered adds exactly one entry
  to the end of the log. The relay runs \<^verbatim>\<open>proccessServerbound\<close> in a goroutine of its own
  for every packet, and \<^verbatim>\<open>s.Packets = append(s.Packets, recorded)\<close> reads the log and
  stores it back without synchronisation. Two chat packets are read and forwarded in the
  \<^verbatim>\<open>play\<close> phase; both goroutines read the empty log before either stores; both run to
  their end; the log holds one entry, the second packet, and the first is lost.
\<close>

theorem capture_append_lost:
  "toServer (relayRun lostAppendSchedule (relayStart playing)) = [chatPacket, otherChatPacket]
   \<and> spawned (relayRun lostAppendSchedule (relayStart playing))
       = [(chatPacket, Ended), (otherChatPacket, Ended)]
   \<and> Packets (sess (relayRun lostAppendSchedule (relayStart playing)))
       = [\<lparr>Packet = otherChatPacket, RelatTime = 20\<rparr>]"
  by (simp add: lostAppendSchedule_def chatPacket_def otherChatPacket_def relayRun_def
      relayStart_def playing_def NewSession_def ClientToServer_def runSpawned_def
      handshaking_def login_def play_def)

section \<open>The phase state machine\<close>

text \<open>
  What holds of each observer taken as one step: the phase afterwards is \<^verbatim>\<open>login\<close> when a
  serverbound \<open>0x00\<close> is seen in \<^verbatim>\<open>handshaking\<close>, \<^verbatim>\<open>play\<close> when a clientbound \<open>0x02\<close> is
  seen in \<^verbatim>\<open>login\<close>, and the phase before in every other case; the two transition
  functions change nothing but the phase, and applying one twice is applying it once.
\<close>

lemma phase_transitions:
  "State (proccessServerbound since packet s)
     = (if State s = handshaking \<and> ID packet = 0x00 then login else State s)
   \<and> State (proccessClientbound packet s)
     = (if State s = login \<and> ID packet = 0x02 then play else State s)
   \<and> State (snd (replayPacket fmtF since okTp okPk rp r))
     = (if State r = handshaking \<and> ID (Packet rp) = 0x00 then login else State r)
   \<and> State (respondToPacket packet ok r)
     = (if State r = login \<and> ID packet = 0x02 then play else State r)
   \<and> setStateFromServerbound pid s
     = (if State s = handshaking \<and> pid = 0x00 then s\<lparr>State := login\<rparr> else s)
   \<and> setStateFromClientbound pid s
     = (if State s = login \<and> pid = 0x02 then s\<lparr>State := play\<rparr> else s)
   \<and> setStateFromServerbound pid (setStateFromServerbound pid s) = setStateFromServerbound pid s
   \<and> setStateFromClientbound pid (setStateFromClientbound pid s) = setStateFromClientbound pid s"
proof -
  have a: "setStateFromServerbound pid s
     = (if State s = handshaking \<and> pid = 0x00 then s\<lparr>State := login\<rparr> else s)"
    by (simp add: setStateFromServerbound_def)
  have b: "setStateFromClientbound pid s
     = (if State s = login \<and> pid = 0x02 then s\<lparr>State := play\<rparr> else s)"
    by (simp add: setStateFromClientbound_def)
  have e: "setStateFromServerbound pid (setStateFromServerbound pid s)
      = setStateFromServerbound pid s"
    by (simp add: setStateFromServerbound_def handshaking_def login_def)
  have f: "setStateFromClientbound pid (setStateFromClientbound pid s)
      = setStateFromClientbound pid s"
    by (simp add: setStateFromClientbound_def play_def login_def)
  show ?thesis
    using a b e f State_proccessServerbound [of since packet s]
      State_proccessClientbound [of packet s] State_replayPacket [of fmtF since okTp okPk rp r]
      State_respondToPacket [of packet ok r]
    by blast
qed

text \<open>
  Claim C2 says that the phase never reverts. In the relay the test
  \<^verbatim>\<open>s.State == handshaking\<close> and the store \<^verbatim>\<open>s.State = login\<close> of
  \<^verbatim>\<open>setStateFromServerbound\<close> are two steps of a goroutine started for a packet, and the
  handshake and the login start both have opcode \<open>0x00\<close>. Both goroutines pass the test
  while the phase is \<^verbatim>\<open>handshaking\<close>; the first stores \<^verbatim>\<open>login\<close>; the clientbound pump
  sees the login success \<open>0x02\<close> and stores \<^verbatim>\<open>play\<close>; then the second goroutine stores
  \<^verbatim>\<open>login\<close>: the phase has gone back from \<^verbatim>\<open>play\<close> to \<^verbatim>\<open>login\<close>.
\<close>

theorem phase_reverts:
  "State (sess (relayRun racingHandshake (relayStart NewSession))) = play
   \<and> spawned (relayRun racingHandshake (relayStart NewSession))
       = [(handshakePacket, AtRead), (loginStartPacket, AtStateStore)]
   \<and> State (sess (relayRun (racingHandshake @ [Go 1 0]) (relayStart NewSession))) = login"
  by (simp add: racingHandshake_def handshakePacket_def loginStartPacket_def relayRun_def
      relayStart_def NewSession_def ClientToServer_def ServerToClient_def runSpawned_def
      proccessClientbound_def setStateFromClientbound_def Let_def
      handshaking_def login_def play_def)

section \<open>The capture of the login position\<close>

lemma loginPosition_setState [simp]:
  "loginPosition (setStateFromServerbound pid s) = loginPosition s"
  "loginPosition (setStateFromClientbound pid s) = loginPosition s"
  by (simp_all add: loginPosition_def setStateFromServerbound_def setStateFromClientbound_def)

lemma loginPosition_proccessServerbound [simp]:
  "loginPosition (proccessServerbound since packet s) = loginPosition s"
  using loginPosition_setState(1) [of "ID packet" s]
  by (simp add: proccessServerbound_def Let_def loginPosition_def)

lemma scanLoginPosition_full:
  "24 \<le> length bs \<Longrightarrow> loginPosition (snd (scanLoginPosition bs s)) = positionOf bs"
  by (auto simp: scanLoginPosition_def readDouble_def readLong_def readN_def Let_def
      loginPosition_def positionOf_def)

lemma captured_stays:
  "\<not> uncaptured s \<Longrightarrow> loginPosition (proccessClientbound packet s) = loginPosition s"
  using loginPosition_setState(2) [of "ID packet" s]
  by (auto simp: proccessClientbound_def Let_def uncaptured_def loginPosition_def)

lemma uncaptured_cong: "loginPosition s = loginPosition t \<Longrightarrow> uncaptured s = uncaptured t"
  by (simp add: uncaptured_def loginPosition_def)

lemma captured_relayTurn:
  "\<not> uncaptured (sess w) \<Longrightarrow> loginPosition (sess (relayTurn w t)) = loginPosition (sess w)"
  by (cases t)
    (auto simp: ClientToServer_def ServerToClient_def StreamBidirectional_def
      c2sSignal_def s2cSignal_def logf_def Let_def captured_stays
      split: pumpState.splits sum.splits option.splits engineState.splits list.splits)

lemma captured_relayRun:
  "\<not> uncaptured (sess w) \<Longrightarrow> loginPosition (sess (relayRun ts w)) = loginPosition (sess w)"
  unfolding relayRun_def
proof (induction ts arbitrary: w)
  case Nil
  show ?case by simp
next
  case (Cons t ts)
  have eq: "loginPosition (sess (relayTurn w t)) = loginPosition (sess w)"
    using Cons.prems by (rule captured_relayTurn)
  then have "\<not> uncaptured (sess (relayTurn w t))"
    using Cons.prems uncaptured_cong by blast
  then have "loginPosition (sess (foldl relayTurn (relayTurn w t) ts))
      = loginPosition (sess (relayTurn w t))"
    by (rule Cons.IH)
  with eq show ?case by simp
qed

lemma zeroPosition_keeps_sentinel: "proccessClientbound zeroPosition playing = playing"
  by (simp add: proccessClientbound_def zeroPosition_def playing_def NewSession_def Let_def
        setStateFromClientbound_def play_def login_def isZero_def scanLoginPosition_def
        readDouble_def readLong_def readN_def be64_def)

text \<open>
  Claim C5, as the code has it. In the \<^verbatim>\<open>play\<close> phase a clientbound \<open>0x34\<close> packet seen
  while all three stored coordinates are zero, and whose payload holds the three
  coordinates (24 bytes), stores them. A packet seen outside \<^verbatim>\<open>play\<close>, or with another
  opcode, leaves the stored position alone. Once a coordinate of the stored position is
  not zero, no packet and no run of the relay changes the position again. (A stored
  position that is all zero is taken for one not captured yet: the next \<open>0x34\<close> packet
  replaces it.)
\<close>

theorem login_position_capture:
  "(State s = play \<and> ID packet = 0x34 \<and> uncaptured s \<and> 24 \<le> length (Data packet) \<longrightarrow>
      loginPosition (proccessClientbound packet s) = positionOf (Data packet))
   \<and> (State (setStateFromClientbound (ID packet) s) \<noteq> play \<or> ID packet \<noteq> 0x34 \<longrightarrow>
      loginPosition (proccessClientbound packet s) = loginPosition s)
   \<and> (\<not> uncaptured s \<longrightarrow> loginPosition (proccessClientbound packet s) = loginPosition s)
   \<and> (\<not> uncaptured (sess w) \<longrightarrow>
      loginPosition (sess (relayRun ts w)) = loginPosition (sess w))"
proof -
  have a: "State s = play \<and> ID packet = 0x34 \<and> uncaptured s \<and> 24 \<le> length (Data packet) \<longrightarrow>
      loginPosition (proccessClientbound packet s) = positionOf (Data packet)"
    by (simp add: proccessClientbound_def Let_def setStateFromClientbound_def play_def login_def
        uncaptured_def scanLoginPosition_full)
  have b: "State (setStateFromClientbound (ID packet) s) \<noteq> play \<or> ID packet \<noteq> 0x34 \<longrightarrow>
      loginPosition (proccessClientbound packet s) = loginPosition s"
    by (auto simp: proccessClientbound_def Let_def)
  show ?thesis using a b captured_stays [of s packet] captured_relayRun [of w ts] by blast
qed

theorem login_position_capture_witness:
  "loginPosition (proccessClientbound laterPosition playing)
       = (0x4024000000000000, 0x4050000000000000, 0xC014000000000000)
   \<and> loginPosition (proccessClientbound zeroPosition (proccessClientbound laterPosition playing))
       = (0x4024000000000000, 0x4050000000000000, 0xC014000000000000)
   \<and> loginPosition (proccessClientbound \<lparr>ID = 0x1F, Data = Data laterPosition\<rparr> playing)
       = (0, 0, 0)
   \<and> loginPosition (sess (relayRun [S2C (Inr zeroPosition) None, Go 0 5]
        (relayStart (proccessClientbound laterPosition playing))))
       = (0x4024000000000000, 0x4050000000000000, 0xC014000000000000)"
proof -
  have 1: "State playing = play \<and> ID laterPosition = 0x34 \<and> uncaptured playing
      \<and> 24 \<le> length (Data laterPosition)"
    by (simp add: playing_def laterPosition_def NewSession_def uncaptured_def isZero_def)
  have 2: "positionOf (Data laterPosition)
      = (0x4024000000000000, 0x4050000000000000, 0xC014000000000000)"
    by (simp add: positionOf_def laterPosition_def be64_def)
  have 3: "loginPosition (proccessClientbound laterPosition playing) = positionOf (Data laterPosition)"
    using login_position_capture [of playing laterPosition] 1 by blast
  have 4: "\<not> uncaptured (proccessClientbound laterPosition playing)"
    using 3 2 by (simp add: uncaptured_def loginPosition_def isZero_def)
  have 5: "loginPosition (proccessClientbound zeroPosition (proccessClientbound laterPosition playing))
      = loginPosition (proccessClientbound laterPosition playing)"
    using login_position_capture [of "proccessClientbound laterPosition playing" zeroPosition] 4
    by blast
  have 6: "ID \<lparr>ID = 0x1F, Data = Data laterPosition\<rparr> \<noteq> 0x34" by simp
  have 7: "loginPosition (proccessClientbound \<lparr>ID = 0x1F, Data = Data laterPosition\<rparr> playing)
      = loginPosition playing"
    using login_position_capture [of playing "\<lparr>ID = 0x1F, Data = Data laterPosition\<rparr>"] 6
    by blast
  have 8: "loginPosition playing = (0, 0, 0)"
    by (simp add: loginPosition_def playing_def NewSession_def)
  have 9: "\<not> uncaptured (sess (relayStart (proccessClientbound laterPosition playing)))"
    using 4 by (simp add: relayStart_def)
  have 10: "loginPosition (sess (relayRun [S2C (Inr zeroPosition) None, Go 0 5]
        (relayStart (proccessClientbound laterPosition playing))))
      = loginPosition (sess (relayStart (proccessClientbound laterPosition playing)))"
    using login_position_capture [where w = "relayStart (proccessClientbound laterPosition playing)"
        and ts = "[S2C (Inr zeroPosition) None, Go 0 5]"] 9
    by blast
  have 11: "sess (relayStart (proccessClientbound laterPosition playing))
      = proccessClientbound laterPosition playing"
    by (simp add: relayStart_def)
  show ?thesis using 2 3 5 7 8 10 11 by simp
qed

text \<open>
  Claim C5 as the spec states it fails: the first \<open>0x34\<close> packet of a session in \<^verbatim>\<open>play\<close>
  reports the origin, it is decoded and stored, and the next \<open>0x34\<close> packet overwrites
  the stored position.
\<close>

theorem login_position_overwritten:
  "loginPosition (proccessClientbound zeroPosition playing) = (0, 0, 0)
   \<and> loginPosition (proccessClientbound laterPosition (proccessClientbound zeroPosition playing))
       = (0x4024000000000000, 0x4050000000000000, 0xC014000000000000)
   \<and> loginPosition (proccessClientbound laterPosition (proccessClientbound zeroPosition playing))
       \<noteq> loginPosition (proccessClientbound zeroPosition playing)"
  unfolding zeroPosition_keeps_sentinel
  by (simp add: proccessClientbound_def laterPosition_def playing_def NewSession_def Let_def
        setStateFromClientbound_def play_def login_def isZero_def scanLoginPosition_def
        readDouble_def readLong_def readN_def be64_def loginPosition_def)

section \<open>The codec decodes what it encodes\<close>

lemma byte_step:
  "push_bit 8 (drop_bit (8 + n) v) OR ucast (ucast (drop_bit n v) :: byte) = drop_bit n (v :: 64 word)"
proof (rule bit_word_eqI)
  fix k assume "k < LENGTH(64)"
  then show "bit (push_bit 8 (drop_bit (8 + n) v) OR ucast (ucast (drop_bit n v) :: byte)) k
      = bit (drop_bit n v) k"
    by (cases "k < 8") (auto simp: bit_simps add.commute add.left_commute)
qed

lemma be64_encLong: "be64 (encLong v) = v"
proof -
  have a7: "ucast (ucast (drop_bit 56 v) :: byte) = drop_bit 56 v"
    using byte_step [of 56 v] by simp
  have a6: "push_bit 8 (drop_bit 56 v) OR ucast (ucast (drop_bit 48 v) :: byte) = drop_bit 48 v"
    using byte_step [of 48 v] by simp
  have a5: "push_bit 8 (drop_bit 48 v) OR ucast (ucast (drop_bit 40 v) :: byte) = drop_bit 40 v"
    using byte_step [of 40 v] by simp
  have a4: "push_bit 8 (drop_bit 40 v) OR ucast (ucast (drop_bit 32 v) :: byte) = drop_bit 32 v"
    using byte_step [of 32 v] by simp
  have a3: "push_bit 8 (drop_bit 32 v) OR ucast (ucast (drop_bit 24 v) :: byte) = drop_bit 24 v"
    using byte_step [of 24 v] by simp
  have a2: "push_bit 8 (drop_bit 24 v) OR ucast (ucast (drop_bit 16 v) :: byte) = drop_bit 16 v"
    using byte_step [of 16 v] by simp
  have a1: "push_bit 8 (drop_bit 16 v) OR ucast (ucast (drop_bit 8 v) :: byte) = drop_bit 8 v"
    using byte_step [of 8 v] by simp
  have a0: "push_bit 8 (drop_bit 8 v) OR ucast (ucast v :: byte) = v"
    using byte_step [of 0 v] by simp
  show ?thesis
    by (simp add: be64_def encLong_def a7 a6 a5 a4 a3 a2 a1 a0)
qed

lemma scanKeepAlive_encLong: "scanKeepAlive (encLong v) = Some v"
  using be64_encLong [of v]
  by (simp add: scanKeepAlive_def readLong_def readN_def) (simp add: encLong_def)

declare encVarInt.simps [simp del]

lemma encVarInt_length: "unat w < 2 ^ (7 * k) \<Longrightarrow> 0 < k \<Longrightarrow> length (encVarInt w) \<le> k"
proof (induction k arbitrary: w)
  case 0
  then show ?case by simp
next
  case (Suc k)
  show ?case
  proof (cases "drop_bit 7 w = 0")
    case True
    then show ?thesis by (subst encVarInt.simps) simp
  next
    case False
    have u: "unat (drop_bit 7 w) = unat w div 128"
      using unat_drop_bit_eq [of 7 w] by (simp add: drop_bit_eq_div)
    have nz: "unat (drop_bit 7 w) \<noteq> 0" using False by (simp add: unat_eq_0)
    have "unat w < 2 ^ (7 * k) * 128" using Suc.prems(1) by (simp add: power_add mult.commute)
    then have lt: "unat (drop_bit 7 w) < 2 ^ (7 * k)" using u by (simp add: less_mult_imp_div_less)
    have "0 < k"
    proof (rule ccontr)
      assume "\<not> 0 < k"
      then have "unat (drop_bit 7 w) < 1" using lt by simp
      then show False using nz by simp
    qed
    then have "length (encVarInt (drop_bit 7 w)) \<le> k" using Suc.IH lt by blast
    then show ?thesis using False by (subst encVarInt.simps) (simp add: Let_def)
  qed
qed

lemma encVarInt_length5: "length (encVarInt w) \<le> 5"
proof -
  have "unat w < 2 ^ 32" using unsigned_less [of w] by simp
  then have "unat w < 2 ^ (7 * 5)" by simp
  then show ?thesis by (rule encVarInt_length) simp
qed

lemma low7: "(w :: 32 word) AND 0x7F = take_bit 7 w"
  by (simp add: take_bit_eq_mask mask_eq_exp_minus_1)

lemma group_split: "(w AND 0x7F) OR push_bit 7 (drop_bit 7 w) = (w :: 32 word)"
proof (rule bit_word_eqI)
  fix k assume k: "k < LENGTH(32)"
  show "bit ((w AND 0x7F) OR push_bit 7 (drop_bit 7 w)) k = bit w k"
    unfolding low7 using k by (cases "k < 7") (auto simp: bit_simps)
qed

lemma bit_0x80:
  "bit (0x80 :: byte) n = (n = 7)"
  "bit (0x80 :: 32 word) n = (n = 7)"
  "bit (0x80 :: int) n = (n = 7)"
  using bit_exp_iff [where ?'a = byte, of 7 n] bit_exp_iff [where ?'a = "32 word", of 7 n]
    bit_exp_iff [where ?'a = int, of 7 n]
  by auto

lemma first_byte:
  "ucast ((ucast ((w AND 0x7F) OR 0x80) :: byte) AND 0x7F) = (w :: 32 word) AND 0x7F"
  "(ucast ((w AND 0x7F) OR 0x80) :: byte) AND 0x80 \<noteq> 0"
proof -
  have l: "(b :: byte) AND 0x7F = take_bit 7 b" for b
    by (simp add: take_bit_eq_mask mask_eq_exp_minus_1)
  show "ucast ((ucast ((w AND 0x7F) OR 0x80) :: byte) AND 0x7F) = (w :: 32 word) AND 0x7F"
    unfolding low7 l
    by (rule bit_word_eqI) (auto simp: bit_simps bit_0x80)
  have top: "bit ((ucast ((w AND 0x7F) OR 0x80) :: byte) AND 0x80) 7"
    unfolding low7 by (simp add: bit_simps bit_0x80)
  show "(ucast ((w AND 0x7F) OR 0x80) :: byte) AND 0x80 \<noteq> 0"
  proof
    assume "(ucast ((w AND 0x7F) OR 0x80) :: byte) AND 0x80 = 0"
    with top show False by simp
  qed
qed

lemma last_byte:
  "ucast ((ucast (w AND 0x7F) :: byte) AND 0x7F) = (w :: 32 word) AND 0x7F"
  "(ucast (w AND 0x7F) :: byte) AND 0x80 = 0"
proof -
  have l: "(b :: byte) AND 0x7F = take_bit 7 b" for b
    by (simp add: take_bit_eq_mask mask_eq_exp_minus_1)
  show "ucast ((ucast (w AND 0x7F) :: byte) AND 0x7F) = (w :: 32 word) AND 0x7F"
    unfolding low7 l
    by (rule bit_word_eqI) (auto simp: bit_simps)
  show "(ucast (w AND 0x7F) :: byte) AND 0x80 = 0"
    unfolding low7
    by (rule bit_word_eqI) (auto simp: bit_simps bit_0x80)
qed

lemma readVarIntFrom_encVarInt:
  "i + length (encVarInt w) \<le> 5 \<Longrightarrow>
   readVarIntFrom i n (encVarInt w @ r) = Some (n OR push_bit (7 * i) w, r)"
proof (induction w arbitrary: i n rule: encVarInt.induct)
  case (1 num)
  show ?case
  proof (cases "drop_bit 7 num = 0")
    case True
    have e: "encVarInt num = [ucast (num AND 0x7F)]"
      using True by (subst encVarInt.simps) (simp add: Let_def)
    have w: "num AND 0x7F = num"
      using group_split [of num] True by simp
    have "i < 5" using "1.prems" e by simp
    then have "readVarIntFrom i n (ucast (num AND 0x7F) # r)
        = Some (n OR push_bit (7 * i) (num AND 0x7F), r)"
      by (simp add: last_byte Let_def del: push_bit_and)
    then show ?thesis by (simp add: e w)
  next
    case False
    have e: "encVarInt num = ucast ((num AND 0x7F) OR 0x80) # encVarInt (drop_bit 7 num)"
      using False by (subst encVarInt.simps) (simp add: Let_def)
    have i: "i < 5" and l: "(i + 1) + length (encVarInt (drop_bit 7 num)) \<le> 5"
      using "1.prems" e by simp_all
    have ih: "readVarIntFrom (i + 1) m (encVarInt (drop_bit 7 num) @ r)
        = Some (m OR push_bit (7 * (i + 1)) (drop_bit 7 num), r)" for m
      using "1.IH" [OF refl refl False l] by simp
    have "push_bit (7 * i) (num AND 0x7F) OR push_bit (7 * (i + 1)) (drop_bit 7 num)
        = push_bit (7 * i) ((num AND 0x7F) OR push_bit 7 (drop_bit 7 num))"
      by (simp add: push_bit_or push_bit_push_bit add.commute del: push_bit_and)
    then have c: "push_bit (7 * i) (num AND 0x7F) OR push_bit (7 * (i + 1)) (drop_bit 7 num)
        = push_bit (7 * i) num"
      by (simp only: group_split)
    have "readVarIntFrom i n (ucast ((num AND 0x7F) OR 0x80) # encVarInt (drop_bit 7 num) @ r)
        = readVarIntFrom (i + 1) (n OR push_bit (7 * i) (num AND 0x7F))
            (encVarInt (drop_bit 7 num) @ r)"
      using i by (simp add: first_byte Let_def del: push_bit_and)
    also have "\<dots> = Some ((n OR push_bit (7 * i) (num AND 0x7F))
          OR push_bit (7 * (i + 1)) (drop_bit 7 num), r)"
      by (rule ih)
    also have "\<dots> = Some (n OR push_bit (7 * i) num, r)"
      using c by (simp only: or.assoc)
    finally show ?thesis by (simp add: e)
  qed
qed

lemma readVarInt_encVarInt: "readVarInt (encVarInt w @ r) = Some (w, r)"
  using readVarIntFrom_encVarInt [of 0 w 0 r] encVarInt_length5 [of w]
  by (simp add: readVarInt_def)

section \<open>The effects of one pass of the sender and of the responder\<close>

lemma effects_setState [simp]:
  "effects (setStateFromServerbound pid s) = effects s"
  "effects (setStateFromClientbound pid s) = effects s"
  "wasPorted (setStateFromServerbound pid s) = wasPorted s"
  "wasPorted (setStateFromClientbound pid s) = wasPorted s"
  by (simp_all add: setStateFromServerbound_def setStateFromClientbound_def)

lemma effects_portToLogin:
  "effects (portToLogin fmtF ok s) = effects s @ [Wrote Teleport (teleportPacket fmtF s) ok]"
  "wasPorted (portToLogin fmtF ok s) = (wasPorted s \<or> ok)"
  by (simp_all add: portToLogin_def WritePacket_def Let_def)

lemma effects_replayPacket:
  "effects (snd (replayPacket fmtF since okTp okPk rp s))
     = effects s
       @ (if State s = play \<and> \<not> wasPorted s \<and> inWorldFamily (ID (Packet rp))
          then [Wrote Teleport (teleportPacket fmtF s) okTp] else [])
       @ (if 0 <s RelatTime rp - since then [Slept (RelatTime rp - since)] else [])
       @ [Wrote Replayed (Packet rp) okPk]"
  by (simp add: replayPacket_def Let_def effects_portToLogin WritePacket_def Sleep_def)

lemma wasPorted_replayPacket:
  "wasPorted (snd (replayPacket fmtF since okTp okPk rp s))
     = (wasPorted s \<or> (State s = play \<and> inWorldFamily (ID (Packet rp)) \<and> okTp))"
  by (auto simp: replayPacket_def Let_def effects_portToLogin WritePacket_def Sleep_def)

lemma fst_replayPacket: "fst (replayPacket fmtF since okTp okPk rp s) = okPk"
  by (simp add: replayPacket_def Let_def)

lemma effects_respondToPacket:
  "effects (respondToPacket p ok s)
     = effects s
       @ (if State s = play \<and> ID p = 0x1F then
            (case scanKeepAlive (Data p) of None \<Rightarrow> []
             | Some keepID \<Rightarrow> [Wrote KeepAliveResponse (Marshal 0x10 [encLong keepID]) ok])
          else if State s = play \<and> ID p = 0x34 then
            (case scanPositionAndLook (Data p) of None \<Rightarrow> []
             | Some tpID \<Rightarrow> [Wrote TeleportConfirm (Marshal 0x00 [encVarInt tpID]) ok])
          else [])"
  by (auto simp: respondToPacket_def answerKeepAlive_def answerTeleport_def WritePacket_def Let_def
      split: option.splits)

lemma wasPorted_respondToPacket: "wasPorted (respondToPacket p ok s) = wasPorted s"
  by (auto simp: respondToPacket_def answerKeepAlive_def answerTeleport_def WritePacket_def Let_def
      split: option.splits)

lemma replayPackets_unfold:
  "replayPackets fmtF since okTp okPk w =
     (if senderDone w then w
      else case pending w of
        [] \<Rightarrow> closeServer w
      | rp # rest \<Rightarrow>
          let w' = w\<lparr>rsess := snd (replayPacket fmtF since okTp okPk rp (rsess w)), pending := rest\<rparr>
          in if okPk then w' else closeServer w')"
  by (auto simp: replayPackets_def Let_def fst_replayPacket split: list.splits prod.splits)
    (metis fst_conv fst_replayPacket snd_conv)+

lemma respondToPacket_no_teleport:
  "filter isInjected (effects (respondToPacket p ok s)) = filter isInjected (effects s)"
  "filter isTeleport (effects (respondToPacket p ok s)) = filter isTeleport (effects s)"
  by (auto simp: respondToPacket_def answerKeepAlive_def answerTeleport_def WritePacket_def Let_def
      split: option.splits)

lemma injectedOnce_step:
  assumes inv: "injectedOnce w"
  shows "injectedOnce (replayStep fmtF w t)"
proof (cases t)
  case (Sender since okTp okPk)
  show ?thesis
  proof (cases "senderDone w")
    case True
    then show ?thesis using inv Sender by (simp add: replayPackets_unfold)
  next
    case False
    show ?thesis
    proof (cases "pending w")
      case Nil
      then show ?thesis using inv Sender False
        by (simp add: replayPackets_unfold closeServer_def injectedOnce_def)
    next
      case (Cons rp rest)
      then show ?thesis using inv Sender False
        by (auto simp: replayPackets_unfold closeServer_def injectedOnce_def Let_def
            effects_replayPacket wasPorted_replayPacket)
    qed
  qed
next
  case (Responder rd ok)
  show ?thesis
  proof (cases "responderDone w")
    case True
    then show ?thesis using inv Responder by (simp add: respondToServer_def)
  next
    case False
    show ?thesis
    proof (cases rd)
      case None
      then show ?thesis using inv Responder False
        by (simp add: respondToServer_def injectedOnce_def)
    next
      case (Some p)
      then show ?thesis using inv Responder False
        by (simp add: respondToServer_def injectedOnce_def wasPorted_respondToPacket
            respondToPacket_no_teleport)
    qed
  qed
qed

lemma injectedOnce_run: "injectedOnce w \<Longrightarrow> injectedOnce (replayRun fmtF ts w)"
  unfolding replayRun_def
  by (induction ts arbitrary: w) (simp_all add: injectedOnce_step)

lemma injectedOnce_start: "injectedOnce (NewReplaySession f)"
  by (simp add: injectedOnce_def NewReplaySession_def)

lemma injected_at_most_once:
  "length (filter isInjected (effects (rsess (replayRun fmtF ts (NewReplaySession f))))) \<le> 1"
  using injectedOnce_run [OF injectedOnce_start, of fmtF ts f]
  by (simp add: injectedOnce_def split: if_splits)


lemma three_world_packets:
  assumes "State (rsess w) = play" "\<not> wasPorted (rsess w)" "\<not> senderDone w"
    and "pending w = p1 # p2 # p3 # rest"
    and "inWorldFamily (ID (Packet p1))" "inWorldFamily (ID (Packet p2))"
      "inWorldFamily (ID (Packet p3))"
  shows "length (filter isTeleport (effects (rsess
           (replayRun fmtF [Sender t1 True k1, Sender t2 b2 k2, Sender t3 b3 k3] w))))
         = length (filter isTeleport (effects (rsess w))) + 1"
  using assms
  by (cases k1; cases k2)
    (simp_all add: replayRun_def replayPackets_unfold closeServer_def Let_def
      effects_replayPacket wasPorted_replayPacket State_replayPacket play_def handshaking_def)

lemma inPlay_eq:
  "inPlay = \<lparr>rsess = \<lparr>Packets = Packets exampleRecord,
        LoginX = 0x4024000000000000, LoginY = 0x4050000000000000, LoginZ = 0xC014000000000000,
        State = play, wasPorted = False,
        effects = [Wrote Replayed \<lparr>ID = 0x00, Data = [4]\<rparr> True]\<rparr>,
      pending = worldPackets, senderDone = False, responderDone = False\<rparr>"
  by (simp add: inPlay_def replayRun_def NewReplaySession_def exampleRecord_def
      replayPackets_def replayPacket_def respondToServer_def respondToPacket_def Let_def
      setStateFromServerbound_def setStateFromClientbound_def WritePacket_def
      handshaking_def login_def play_def inWorldFamily_def)

lemma rsess_inPlay:
  "State (rsess inPlay) = play" "\<not> wasPorted (rsess inPlay)" "\<not> senderDone inPlay"
  "pending inPlay = worldPackets"
  "LoginX (rsess inPlay) = 0x4024000000000000" "LoginY (rsess inPlay) = 0x4050000000000000"
  "LoginZ (rsess inPlay) = 0xC014000000000000"
  "effects (rsess inPlay) = [Wrote Replayed \<lparr>ID = 0x00, Data = [4]\<rparr> True]"
  by (simp_all add: inPlay_eq)

section \<open>The teleport injection\<close>

text \<open>
  Claim C4, as the code has it. When the sender comes to a recorded packet whose opcode
  lies in \<open>[0x12, 0x16]\<close> while the phase is \<^verbatim>\<open>play\<close> and the flag is unset, the first
  thing it does is call \<^verbatim>\<open>WritePacket\<close> with the chat packet (opcode \<open>0x03\<close>) whose
  text is the teleport command formatted from the login position; after the pass the flag
  is set exactly when that write returned no error. In every other case a pass writes no
  teleport packet and leaves the flag alone. In a whole replay, whatever the schedule and
  the outcomes of the writes, at most one teleport write succeeds. And three world packets
  in a row, met in \<^verbatim>\<open>play\<close> with the flag unset, lead to exactly one teleport write when
  the first one succeeds.
\<close>

theorem teleport_injection:
  "(State s = play \<and> \<not> wasPorted s \<and> inWorldFamily (ID (Packet rp)) \<longrightarrow>
      effects (snd (replayPacket fmtF since okTp okPk rp s))
        = effects s
          @ [Wrote Teleport (Marshal 0x03 [encString (''/teleport '' @ fmtF (LoginX s) @ '' ''
               @ fmtF (LoginY s) @ '' '' @ fmtF (LoginZ s))]) okTp]
          @ (if 0 <s RelatTime rp - since then [Slept (RelatTime rp - since)] else [])
          @ [Wrote Replayed (Packet rp) okPk]
      \<and> wasPorted (snd (replayPacket fmtF since okTp okPk rp s)) = okTp)
   \<and> (\<not> (State s = play \<and> \<not> wasPorted s \<and> inWorldFamily (ID (Packet rp))) \<longrightarrow>
      filter isTeleport (effects (snd (replayPacket fmtF since okTp okPk rp s)))
        = filter isTeleport (effects s)
      \<and> wasPorted (snd (replayPacket fmtF since okTp okPk rp s)) = wasPorted s)
   \<and> length (filter isInjected (effects (rsess (replayRun fmtF ts (NewReplaySession f))))) \<le> 1
   \<and> (State (rsess w) = play \<and> \<not> wasPorted (rsess w) \<and> \<not> senderDone w
        \<and> pending w = p1 # p2 # p3 # rest
        \<and> inWorldFamily (ID (Packet p1)) \<and> inWorldFamily (ID (Packet p2))
        \<and> inWorldFamily (ID (Packet p3)) \<longrightarrow>
      length (filter isTeleport (effects (rsess
          (replayRun fmtF [Sender t1 True k1, Sender t2 b2 k2, Sender t3 b3 k3] w))))
        = length (filter isTeleport (effects (rsess w))) + 1)"
proof -
  have a: "State s = play \<and> \<not> wasPorted s \<and> inWorldFamily (ID (Packet rp)) \<longrightarrow>
      effects (snd (replayPacket fmtF since okTp okPk rp s))
        = effects s
          @ [Wrote Teleport (Marshal 0x03 [encString (''/teleport '' @ fmtF (LoginX s) @ '' ''
               @ fmtF (LoginY s) @ '' '' @ fmtF (LoginZ s))]) okTp]
          @ (if 0 <s RelatTime rp - since then [Slept (RelatTime rp - since)] else [])
          @ [Wrote Replayed (Packet rp) okPk]
      \<and> wasPorted (snd (replayPacket fmtF since okTp okPk rp s)) = okTp"
    by (simp add: effects_replayPacket wasPorted_replayPacket teleportPacket_def
        teleportMessage_def)
  have b: "\<not> (State s = play \<and> \<not> wasPorted s \<and> inWorldFamily (ID (Packet rp))) \<longrightarrow>
      filter isTeleport (effects (snd (replayPacket fmtF since okTp okPk rp s)))
        = filter isTeleport (effects s)
      \<and> wasPorted (snd (replayPacket fmtF since okTp okPk rp s)) = wasPorted s"
    by (auto simp: effects_replayPacket wasPorted_replayPacket)
  show ?thesis
    using a b injected_at_most_once [of fmtF ts f]
      three_world_packets [of w p1 p2 p3 rest fmtF t1 k1 t2 b2 k2 t3 b3 k3]
    by blast
qed

theorem teleport_injection_witness:
  "effects (snd (replayPacket exampleFmt 40 True True (hd worldPackets) (rsess inPlay)))
     = [Wrote Replayed \<lparr>ID = 0x00, Data = [4]\<rparr> True,
        Wrote Teleport (Marshal 0x03 [encString ''/teleport 10.000000 64.000000 -5.000000'']) True,
        Slept 60,
        Wrote Replayed \<lparr>ID = 0x12, Data = [1]\<rparr> True]
   \<and> wasPorted (snd (replayPacket exampleFmt 40 True True (hd worldPackets) (rsess inPlay)))
   \<and> filter isTeleport (effects (snd (replayPacket exampleFmt 40 True True halfSecond (rsess inPlay))))
     = []
   \<and> length (filter isTeleport (effects (rsess (replayRun exampleFmt
        [Sender 40 True True, Sender 50 True True, Sender 60 True True] inPlay)))) = 1"
proof -
  have h1: "State (rsess inPlay) = play \<and> \<not> wasPorted (rsess inPlay)
      \<and> inWorldFamily (ID (Packet (hd worldPackets)))"
    by (simp add: rsess_inPlay worldPackets_def inWorldFamily_def)
  have c1: "effects (snd (replayPacket exampleFmt 40 True True (hd worldPackets) (rsess inPlay)))
        = effects (rsess inPlay)
          @ [Wrote Teleport (Marshal 0x03 [encString (''/teleport '' @ exampleFmt (LoginX (rsess inPlay))
               @ '' '' @ exampleFmt (LoginY (rsess inPlay)) @ '' ''
               @ exampleFmt (LoginZ (rsess inPlay)))]) True]
          @ (if 0 <s RelatTime (hd worldPackets) - 40 then [Slept (RelatTime (hd worldPackets) - 40)] else [])
          @ [Wrote Replayed (Packet (hd worldPackets)) True]
      \<and> wasPorted (snd (replayPacket exampleFmt 40 True True (hd worldPackets) (rsess inPlay))) = True"
    using teleport_injection [where s = "rsess inPlay" and rp = "hd worldPackets"
        and fmtF = exampleFmt and since = 40 and okTp = True and okPk = True] h1
    by blast
  have h2: "\<not> (State (rsess inPlay) = play \<and> \<not> wasPorted (rsess inPlay)
      \<and> inWorldFamily (ID (Packet halfSecond)))"
    by (simp add: halfSecond_def inWorldFamily_def)
  have c2: "filter isTeleport (effects (snd (replayPacket exampleFmt 40 True True halfSecond (rsess inPlay))))
        = filter isTeleport (effects (rsess inPlay))"
    using teleport_injection [where s = "rsess inPlay" and rp = halfSecond
        and fmtF = exampleFmt and since = 40 and okTp = True and okPk = True] h2
    by blast
  have h4: "State (rsess inPlay) = play \<and> \<not> wasPorted (rsess inPlay) \<and> \<not> senderDone inPlay
        \<and> pending inPlay = worldPackets ! 0 # worldPackets ! 1 # worldPackets ! 2 # []
        \<and> inWorldFamily (ID (Packet (worldPackets ! 0)))
        \<and> inWorldFamily (ID (Packet (worldPackets ! 1)))
        \<and> inWorldFamily (ID (Packet (worldPackets ! 2)))"
    by (simp add: rsess_inPlay) (simp add: worldPackets_def inWorldFamily_def)
  have c4: "length (filter isTeleport (effects (rsess (replayRun exampleFmt
        [Sender 40 True True, Sender 50 True True, Sender 60 True True] inPlay))))
      = length (filter isTeleport (effects (rsess inPlay))) + 1"
    using teleport_injection [where w = inPlay and fmtF = exampleFmt and ?p1.0 = "worldPackets ! 0"
        and ?p2.0 = "worldPackets ! 1" and ?p3.0 = "worldPackets ! 2" and rest = "[]"
        and ?t1.0 = 40 and ?k1.0 = True and ?t2.0 = 50 and ?b2.0 = True and ?k2.0 = True
        and ?t3.0 = 60 and ?b3.0 = True and ?k3.0 = True] h4
    by blast
  have w: "0 <s (100 :: 64 word) - 40" "(100 :: 64 word) - 40 = 60"
    by (simp_all add: word_sless_alt)
  show ?thesis
    using c1 c2 c4 w
    by (simp add: rsess_inPlay exampleFmt_def) (simp add: worldPackets_def)
qed

text \<open>
  Claim C4 as the spec states it fails when the write of the teleport packet returns an
  error: the flag stays unset, and with three world packets in a row the teleport packet
  is written three times, none of them successfully.
\<close>

theorem teleport_injection_repeats:
  "length (filter isTeleport (effects (rsess (replayRun exampleFmt
      [Sender 0 False True, Sender 0 False True, Sender 0 False True] inPlay)))) = 3
   \<and> filter isInjected (effects (rsess (replayRun exampleFmt
      [Sender 0 False True, Sender 0 False True, Sender 0 False True] inPlay))) = []
   \<and> \<not> wasPorted (rsess (replayRun exampleFmt [Sender 0 False True] inPlay))"
  unfolding inPlay_eq
  by (simp add: replayRun_def replayPackets_unfold Let_def worldPackets_def
      effects_replayPacket wasPorted_replayPacket State_replayPacket inWorldFamily_def
      play_def handshaking_def)

section \<open>A failed teleport write is tried again\<close>



section \<open>The pacing of the replay\<close>

lemma sint_diff:
  "0 \<le> sint a \<Longrightarrow> 0 \<le> sint b \<Longrightarrow> sint (a - b) = sint a - sint (b :: 64 word)"
proof -
  assume a: "0 \<le> sint a" and b: "0 \<le> sint b"
  have "sint a < 2 ^ 63" "sint b < 2 ^ 63"
    using sint_lt [of a] sint_lt [of b] by simp_all
  then have "- (2 ^ 63) \<le> sint a - sint b" "sint a - sint b < 2 ^ 63"
    using a b by simp_all
  then have "signed_take_bit 63 (sint a - sint b) = sint a - sint b"
    by (simp add: signed_take_bit_int_eq_self)
  then show ?thesis by (simp add: sint_word_ariths)
qed

text \<open>
  Claim C7. For one recorded packet the sender computes the wait as the recorded
  \<^verbatim>\<open>RelatTime\<close> minus the reading of the elapsed time; when the wait is positive it calls
  \<^verbatim>\<open>time.Sleep\<close> once, with exactly the wait, and then writes the packet; when the wait is
  zero or negative it writes the packet without sleeping. With an elapsed time that is
  not negative and below the recorded time, elapsed time plus sleep is the recorded time,
  so the packet is written no earlier than its recorded offset (half a second in the
  example); with a recorded time that is not negative and at most the elapsed time there
  is no sleep.
\<close>

theorem replay_pacing:
  "effects (snd (replayPacket fmtF since okTp okPk rp s))
     = effects s
       @ (if State s = play \<and> \<not> wasPorted s \<and> inWorldFamily (ID (Packet rp))
          then [Wrote Teleport (teleportPacket fmtF s) okTp] else [])
       @ (if 0 <s RelatTime rp - since then [Slept (RelatTime rp - since)] else [])
       @ [Wrote Replayed (Packet rp) okPk]
   \<and> filter isSleep (added s (snd (replayPacket fmtF since okTp okPk rp s)))
     = (if 0 <s RelatTime rp - since then [Slept (RelatTime rp - since)] else [])
   \<and> (0 \<le>s since \<and> since <s RelatTime rp \<longrightarrow>
        filter isSleep (added s (snd (replayPacket fmtF since okTp okPk rp s)))
          = [Slept (RelatTime rp - since)]
        \<and> sint since + sint (RelatTime rp - since) = sint (RelatTime rp))
   \<and> (0 \<le>s RelatTime rp \<and> RelatTime rp \<le>s since \<longrightarrow>
        filter isSleep (added s (snd (replayPacket fmtF since okTp okPk rp s))) = [])"
proof -
  have sl: "filter isSleep (added s (snd (replayPacket fmtF since okTp okPk rp s)))
     = (if 0 <s RelatTime rp - since then [Slept (RelatTime rp - since)] else [])"
    by (simp add: added_def effects_replayPacket)
  have pos: "0 \<le>s since \<and> since <s RelatTime rp \<longrightarrow>
      0 <s RelatTime rp - since \<and> sint since + sint (RelatTime rp - since) = sint (RelatTime rp)"
  proof
    assume h: "0 \<le>s since \<and> since <s RelatTime rp"
    then have 1: "0 \<le> sint since" "sint since < sint (RelatTime rp)"
      by (simp_all add: word_sle_eq word_sless_alt)
    then have "sint (RelatTime rp - since) = sint (RelatTime rp) - sint since"
      using sint_diff [of "RelatTime rp" since] by simp
    then show "0 <s RelatTime rp - since
        \<and> sint since + sint (RelatTime rp - since) = sint (RelatTime rp)"
      using 1 by (simp add: word_sless_alt)
  qed
  have late: "0 \<le>s RelatTime rp \<and> RelatTime rp \<le>s since \<longrightarrow> \<not> 0 <s RelatTime rp - since"
  proof
    assume h: "0 \<le>s RelatTime rp \<and> RelatTime rp \<le>s since"
    then have 1: "0 \<le> sint (RelatTime rp)" "sint (RelatTime rp) \<le> sint since"
      by (simp_all add: word_sle_eq)
    then have "sint (RelatTime rp - since) = sint (RelatTime rp) - sint since"
      using sint_diff [of "RelatTime rp" since] by simp
    then show "\<not> 0 <s RelatTime rp - since"
      using 1 by (simp add: word_sless_alt)
  qed
  show ?thesis
    using sl pos late effects_replayPacket [of fmtF since okTp okPk rp s] by simp
qed

theorem replay_pacing_witness:
  "filter isSleep (added (rsess (NewReplaySession exampleRecord))
      (snd (replayPacket exampleFmt 200000000 True True halfSecond
        (rsess (NewReplaySession exampleRecord)))))
     = [Slept 300000000]
   \<and> filter isSleep (added (rsess (NewReplaySession exampleRecord))
      (snd (replayPacket exampleFmt 600000000 True True halfSecond
        (rsess (NewReplaySession exampleRecord)))))
     = []"
proof -
  have h1: "0 \<le>s (200000000 :: 64 word) \<and> 200000000 <s RelatTime halfSecond"
    by (simp add: halfSecond_def word_sle_eq word_sless_alt)
  have h2: "0 \<le>s RelatTime halfSecond \<and> RelatTime halfSecond \<le>s 600000000"
    by (simp add: halfSecond_def word_sle_eq word_sless_alt)
  have c1: "filter isSleep (added (rsess (NewReplaySession exampleRecord))
      (snd (replayPacket exampleFmt 200000000 True True halfSecond
        (rsess (NewReplaySession exampleRecord)))))
     = [Slept (RelatTime halfSecond - 200000000)]"
    using replay_pacing [where s = "rsess (NewReplaySession exampleRecord)" and rp = halfSecond
        and since = 200000000 and fmtF = exampleFmt and okTp = True and okPk = True] h1
    by blast
  have c2: "filter isSleep (added (rsess (NewReplaySession exampleRecord))
      (snd (replayPacket exampleFmt 600000000 True True halfSecond
        (rsess (NewReplaySession exampleRecord)))))
     = []"
    using replay_pacing [where s = "rsess (NewReplaySession exampleRecord)" and rp = halfSecond
        and since = 600000000 and fmtF = exampleFmt and okTp = True and okPk = True] h2
    by blast
  show ?thesis using c1 c2 by (simp add: halfSecond_def)
qed

section \<open>The responder\<close>

lemma added_keepAlive:
  "State s = play \<Longrightarrow> ID p = 0x1F \<Longrightarrow> scanKeepAlive (Data p) = Some keepID \<Longrightarrow>
   added s (respondToPacket p ok s) = [Wrote KeepAliveResponse (Marshal 0x10 [encLong keepID]) ok]"
  by (simp add: added_def respondToPacket_def answerKeepAlive_def answerTeleport_def
      WritePacket_def Let_def)

lemma added_teleportConfirm:
  "State s = play \<Longrightarrow> ID p = 0x34 \<Longrightarrow> scanPositionAndLook (Data p) = Some tpID \<Longrightarrow>
   added s (respondToPacket p ok s) = [Wrote TeleportConfirm (Marshal 0x00 [encVarInt tpID]) ok]"
  by (simp add: added_def respondToPacket_def answerKeepAlive_def answerTeleport_def
      WritePacket_def Let_def)

lemma added_other:
  "ID p \<noteq> 0x1F \<Longrightarrow> ID p \<noteq> 0x34 \<Longrightarrow> added s (respondToPacket p ok s) = []"
  by (simp add: added_def respondToPacket_def answerKeepAlive_def answerTeleport_def
      WritePacket_def Let_def)

lemma added_solicited:
  "isKeepAlive e \<Longrightarrow> e \<in> set (added s (respondToPacket p ok s)) \<Longrightarrow>
   State s = play \<and> ID p = 0x1F
   \<and> (\<exists>k. scanKeepAlive (Data p) = Some k
         \<and> e = Wrote KeepAliveResponse (Marshal 0x10 [encLong k]) ok)"
  by (auto simp: added_def respondToPacket_def answerKeepAlive_def answerTeleport_def
      WritePacket_def Let_def split: if_splits option.splits)

lemma keepAlive_respondToPacket:
  "length (filter isKeepAlive (effects (respondToPacket p ok s)))
     \<le> length (filter isKeepAlive (effects s)) + (if ID p = 0x1F then 1 else 0)"
  by (auto simp: respondToPacket_def answerKeepAlive_def answerTeleport_def WritePacket_def Let_def
      split: option.splits)

lemma keepAlive_replayPacket:
  "filter isKeepAlive (effects (snd (replayPacket fmtF since okTp okPk rp s)))
     = filter isKeepAlive (effects s)"
  by (simp add: effects_replayPacket)

lemma keepAlive_step:
  "length (filter isKeepAlive (effects (rsess (replayStep fmtF w t))))
     \<le> length (filter isKeepAlive (effects (rsess w))) + (if isRequest t then 1 else 0)"
proof (cases t)
  case (Sender since okTp okPk)
  then show ?thesis
    by (cases "pending w")
      (simp_all add: replayPackets_unfold closeServer_def Let_def keepAlive_replayPacket)
next
  case (Responder rd ok)
  show ?thesis
  proof (cases rd)
    case None
    then show ?thesis using Responder by (simp add: respondToServer_def)
  next
    case (Some p)
    then show ?thesis using Responder keepAlive_respondToPacket [of p ok "rsess w"]
      by (auto simp: respondToServer_def split: if_splits)
  qed
qed

lemma keepAlive_run:
  "length (filter isKeepAlive (effects (rsess (replayRun fmtF ts w))))
     \<le> length (filter isKeepAlive (effects (rsess w))) + length (filter isRequest ts)"
  unfolding replayRun_def
proof (induction ts arbitrary: w)
  case Nil
  show ?case by simp
next
  case (Cons t ts)
  have "length (filter isKeepAlive (effects (rsess (foldl (replayStep fmtF) (replayStep fmtF w t) ts))))
      \<le> length (filter isKeepAlive (effects (rsess (replayStep fmtF w t)))) + length (filter isRequest ts)"
    by (rule Cons.IH)
  also have "\<dots> \<le> length (filter isKeepAlive (effects (rsess w))) + (if isRequest t then 1 else 0)
      + length (filter isRequest ts)"
    using keepAlive_step [of fmtF w t] by simp
  finally show ?case by (cases "isRequest t") simp_all
qed

lemma scan_keepAliveRequest: "scanKeepAlive (Data keepAliveRequest) = Some 0x0102030405060708"
  by (simp add: keepAliveRequest_def scanKeepAlive_def readLong_def readN_def be64_def)

lemma encLong_example: "encLong 0x0102030405060708 = [1, 2, 3, 4, 5, 6, 7, 8]"
  by (simp add: encLong_def drop_bit_eq_div)

lemma scan_laterPosition: "scanPositionAndLook (Data laterPosition) = Some 2"
  by (simp add: laterPosition_def scanPositionAndLook_def readDouble_def readLong_def readN_def
      readFloat_def readByte_def readVarInt_def)

lemma encVarInt_2: "encVarInt 2 = [2]"
  by (subst encVarInt.simps) (simp add: Let_def drop_bit_eq_div)

text \<open>
  Claim C6. For a packet read from the backend while the phase is \<^verbatim>\<open>play\<close>: a \<open>0x1F\<close>
  packet whose payload decodes to the keep-alive id \<open>keepID\<close> makes the responder call
  \<^verbatim>\<open>WritePacket\<close> exactly once, with a \<open>0x10\<close> packet that decodes to the same id; a
  \<open>0x34\<close> packet whose payload decodes to the teleport id \<open>tpID\<close> makes it call
  \<^verbatim>\<open>WritePacket\<close> exactly once, with a \<open>0x00\<close> packet that decodes to the same id; a
  packet with any other opcode leads to no write. A keep-alive response is only ever
  written for a \<open>0x1F\<close> packet that was read, and a whole replay writes at most as many
  keep-alive responses as the responder has read \<open>0x1F\<close> packets.
\<close>

theorem responder_fidelity:
  "(State s = play \<and> ID p = 0x1F \<and> scanKeepAlive (Data p) = Some keepID \<longrightarrow>
      added s (respondToPacket p ok s)
        = [Wrote KeepAliveResponse (Marshal 0x10 [encLong keepID]) ok]
      \<and> ID (Marshal 0x10 [encLong keepID]) = 0x10
      \<and> scanKeepAlive (Data (Marshal 0x10 [encLong keepID])) = Some keepID)
   \<and> (State s = play \<and> ID p = 0x34 \<and> scanPositionAndLook (Data p) = Some tpID \<longrightarrow>
      added s (respondToPacket p ok s)
        = [Wrote TeleportConfirm (Marshal 0x00 [encVarInt tpID]) ok]
      \<and> ID (Marshal 0x00 [encVarInt tpID]) = 0x00
      \<and> readVarInt (Data (Marshal 0x00 [encVarInt tpID])) = Some (tpID, []))
   \<and> (ID p \<noteq> 0x1F \<and> ID p \<noteq> 0x34 \<longrightarrow> added s (respondToPacket p ok s) = [])
   \<and> (isKeepAlive e \<and> e \<in> set (added s (respondToPacket p ok s)) \<longrightarrow>
        State s = play \<and> ID p = 0x1F
        \<and> (\<exists>k. scanKeepAlive (Data p) = Some k
              \<and> e = Wrote KeepAliveResponse (Marshal 0x10 [encLong k]) ok))
   \<and> length (filter isKeepAlive (effects (rsess (replayRun fmtF ts (NewReplaySession f)))))
       \<le> length (filter isRequest ts)"
proof -
  have a: "State s = play \<and> ID p = 0x1F \<and> scanKeepAlive (Data p) = Some keepID \<longrightarrow>
      added s (respondToPacket p ok s)
        = [Wrote KeepAliveResponse (Marshal 0x10 [encLong keepID]) ok]
      \<and> ID (Marshal 0x10 [encLong keepID]) = 0x10
      \<and> scanKeepAlive (Data (Marshal 0x10 [encLong keepID])) = Some keepID"
    using scanKeepAlive_encLong [of keepID] added_keepAlive [of s p keepID ok]
    by (simp add: Marshal_def)
  have b: "State s = play \<and> ID p = 0x34 \<and> scanPositionAndLook (Data p) = Some tpID \<longrightarrow>
      added s (respondToPacket p ok s)
        = [Wrote TeleportConfirm (Marshal 0x00 [encVarInt tpID]) ok]
      \<and> ID (Marshal 0x00 [encVarInt tpID]) = 0x00
      \<and> readVarInt (Data (Marshal 0x00 [encVarInt tpID])) = Some (tpID, [])"
    using readVarInt_encVarInt [of tpID "[]"] added_teleportConfirm [of s p tpID ok]
    by (simp add: Marshal_def)
  have c: "ID p \<noteq> 0x1F \<and> ID p \<noteq> 0x34 \<longrightarrow> added s (respondToPacket p ok s) = []"
    using added_other [of p s ok] by blast
  have d: "isKeepAlive e \<and> e \<in> set (added s (respondToPacket p ok s)) \<longrightarrow>
        State s = play \<and> ID p = 0x1F
        \<and> (\<exists>k. scanKeepAlive (Data p) = Some k
              \<and> e = Wrote KeepAliveResponse (Marshal 0x10 [encLong k]) ok)"
    using added_solicited [of e s p ok] by blast
  have e: "length (filter isKeepAlive (effects (rsess (replayRun fmtF ts (NewReplaySession f)))))
       \<le> length (filter isRequest ts)"
    using keepAlive_run [of fmtF ts "NewReplaySession f"] by (simp add: NewReplaySession_def)
  show ?thesis using a b c d e by blast
qed

theorem responder_fidelity_witness:
  "added (rsess inPlay) (respondToPacket keepAliveRequest True (rsess inPlay))
     = [Wrote KeepAliveResponse \<lparr>ID = 0x10, Data = [1, 2, 3, 4, 5, 6, 7, 8]\<rparr> True]
   \<and> added (rsess inPlay) (respondToPacket laterPosition True (rsess inPlay))
     = [Wrote TeleportConfirm \<lparr>ID = 0x00, Data = [2]\<rparr> True]
   \<and> added (rsess inPlay) (respondToPacket \<lparr>ID = 0x21, Data = [9]\<rparr> True (rsess inPlay)) = []
   \<and> (\<exists>k. scanKeepAlive (Data keepAliveRequest) = Some k
         \<and> Wrote KeepAliveResponse \<lparr>ID = 0x10, Data = [1, 2, 3, 4, 5, 6, 7, 8]\<rparr> True
             = Wrote KeepAliveResponse (Marshal 0x10 [encLong k]) True)"
proof -
  have h1: "State (rsess inPlay) = play \<and> ID keepAliveRequest = 0x1F
      \<and> scanKeepAlive (Data keepAliveRequest) = Some 0x0102030405060708"
    by (simp add: rsess_inPlay scan_keepAliveRequest) (simp add: keepAliveRequest_def)
  have c1: "added (rsess inPlay) (respondToPacket keepAliveRequest True (rsess inPlay))
      = [Wrote KeepAliveResponse (Marshal 0x10 [encLong 0x0102030405060708]) True]"
    using responder_fidelity [where s = "rsess inPlay" and p = keepAliveRequest
        and keepID = "0x0102030405060708" and ok = True] h1
    by blast
  have h2: "State (rsess inPlay) = play \<and> ID laterPosition = 0x34
      \<and> scanPositionAndLook (Data laterPosition) = Some 2"
    by (simp add: rsess_inPlay scan_laterPosition) (simp add: laterPosition_def)
  have c2: "added (rsess inPlay) (respondToPacket laterPosition True (rsess inPlay))
      = [Wrote TeleportConfirm (Marshal 0x00 [encVarInt 2]) True]"
    using responder_fidelity [where s = "rsess inPlay" and p = laterPosition
        and tpID = 2 and ok = True] h2
    by blast
  have h3: "ID \<lparr>ID = 0x21, Data = [9]\<rparr> \<noteq> 0x1F \<and> ID \<lparr>ID = 0x21, Data = [9]\<rparr> \<noteq> 0x34"
    by simp
  have c3: "added (rsess inPlay) (respondToPacket \<lparr>ID = 0x21, Data = [9]\<rparr> True (rsess inPlay)) = []"
    using responder_fidelity [where s = "rsess inPlay" and p = "\<lparr>ID = 0x21, Data = [9]\<rparr>"
        and ok = True] h3
    by blast
  have m1: "Marshal 0x10 [encLong 0x0102030405060708] = \<lparr>ID = 0x10, Data = [1, 2, 3, 4, 5, 6, 7, 8]\<rparr>"
    by (simp add: Marshal_def encLong_example)
  have m2: "Marshal 0x00 [encVarInt 2] = \<lparr>ID = 0x00, Data = [2]\<rparr>"
    by (simp add: Marshal_def encVarInt_2)
  have h4: "isKeepAlive (Wrote KeepAliveResponse \<lparr>ID = 0x10, Data = [1, 2, 3, 4, 5, 6, 7, 8]\<rparr> True)
      \<and> Wrote KeepAliveResponse \<lparr>ID = 0x10, Data = [1, 2, 3, 4, 5, 6, 7, 8]\<rparr> True
          \<in> set (added (rsess inPlay) (respondToPacket keepAliveRequest True (rsess inPlay)))"
    using c1 m1 by simp
  have c4: "\<exists>k. scanKeepAlive (Data keepAliveRequest) = Some k
         \<and> Wrote KeepAliveResponse \<lparr>ID = 0x10, Data = [1, 2, 3, 4, 5, 6, 7, 8]\<rparr> True
             = Wrote KeepAliveResponse (Marshal 0x10 [encLong k]) True"
    using responder_fidelity [where s = "rsess inPlay" and p = keepAliveRequest and ok = True
        and e = "Wrote KeepAliveResponse \<lparr>ID = 0x10, Data = [1, 2, 3, 4, 5, 6, 7, 8]\<rparr> True"] h4
    by blast
  show ?thesis using c1 c2 c3 c4 m1 m2 by simp
qed

section \<open>The relay pumps and the end of stream\<close>

text \<open>
  What holds of the classification: an error that is not the end of the stream is logged,
  nothing is sent on \<^verbatim>\<open>errs\<close>, the packet is not forwarded and the pump stays in its
  loop; and \<^verbatim>\<open>StreamBidirectional\<close> closes each connection at most once.
\<close>

lemma other_error_goes_on:
  "c2s w = Looping \<Longrightarrow> closer w = 0 \<Longrightarrow>
   c2s (ClientToServer (Inl OtherError) wr w) = Looping
   \<and> errs (ClientToServer (Inl OtherError) wr w) = errs w
   \<and> logged (ClientToServer (Inl OtherError) wr w) = logged w @ [''Unable to read packet from client'']
   \<and> toServer (ClientToServer (Inl OtherError) wr w) = toServer w"
  by (simp add: ClientToServer_def logf_def)

lemma closed_with_engine:
  "clientClosed w = (if engine w = Finished then 1 else 0) \<Longrightarrow>
   serverClosed w = clientClosed w \<Longrightarrow>
   clientClosed (relayTurn w t) = (if engine (relayTurn w t) = Finished then 1 else 0)
   \<and> serverClosed (relayTurn w t) = clientClosed (relayTurn w t)"
  by (cases t)
    (auto simp: ClientToServer_def ServerToClient_def StreamBidirectional_def
      c2sSignal_def s2cSignal_def logf_def Let_def
      split: pumpState.splits sum.splits option.splits engineState.splits list.splits if_splits)

lemma closed_once:
  "clientClosed w = (if engine w = Finished then 1 else 0) \<Longrightarrow>
   serverClosed w = clientClosed w \<Longrightarrow>
   clientClosed (relayRun ts w) \<le> 1 \<and> serverClosed (relayRun ts w) = clientClosed (relayRun ts w)"
  unfolding relayRun_def
proof (induction ts arbitrary: w)
  case Nil
  then show ?case by (simp split: if_splits)
next
  case (Cons t ts)
  show ?case
    using Cons.IH [of "relayTurn w t"] closed_with_engine [OF Cons.prems, of t] by simp
qed

lemma afterEof_eq:
  "afterEof = (relayStart NewSession)\<lparr>errs := [EOF, EOF], closer := 1, c2s := Blocked,
      s2c := Returned, engine := Finished, clientClosed := 1, serverClosed := 1\<rparr>"
  by (simp add: afterEof_def eofSchedule_def relayRun_def relayStart_def ClientToServer_def
      ServerToClient_def StreamBidirectional_def c2sSignal_def s2cSignal_def errsCap_def
      closerCap_def)

lemma stuck_turn: "stuck w \<Longrightarrow> stuck (relayTurn w t)"
  by (cases t)
    (auto simp: stuck_def ClientToServer_def ServerToClient_def
      StreamBidirectional_def c2sSignal_def)

lemma stuck_run: "stuck w \<Longrightarrow> stuck (relayRun ts w)"
  unfolding relayRun_def
  by (induction ts arbitrary: w) (simp_all add: stuck_turn)

text \<open>
  Claim C8 says that a stream-closed failure ends the loop of the pump that met it. In the
  code the \<^verbatim>\<open>break\<close> after \<^verbatim>\<open>errs <- err\<close> stands inside the \<^verbatim>\<open>select\<close> and leaves only the
  \<^verbatim>\<open>select\<close>. After an end of stream on the read, or on the write, the serverbound pump
  is still in its loop; after an end of stream on the write it reads the next packet and
  hands it to the recorder. The loop is left only through \<^verbatim>\<open>closer\<close>. When the client has
  closed its connection and the pump runs four passes before \<^verbatim>\<open>StreamBidirectional\<close> has
  sent on \<^verbatim>\<open>closer\<close>, the pump waits in \<^verbatim>\<open>errs <- err\<close> on a full channel: whatever
  happens afterwards, it never returns, although the engine has finished.
\<close>

theorem eof_does_not_end_the_loop:
  "c2s (ClientToServer (Inl EOF) None (relayStart NewSession)) = Looping
   \<and> errs (ClientToServer (Inl EOF) None (relayStart NewSession)) = [EOF]
   \<and> c2s (ClientToServer (Inr handshakePacket) (Some EOF) (relayStart NewSession)) = Looping
   \<and> spawned (relayRun [C2S (Inr handshakePacket) (Some EOF), C2S (Inr loginStartPacket) (Some EOF)]
        (relayStart NewSession))
       = [(handshakePacket, AtFilter), (loginStartPacket, AtFilter)]
   \<and> c2s afterEof = Blocked \<and> engine afterEof = Finished
   \<and> (\<forall>ts. c2s (relayRun ts afterEof) = Blocked)"
proof -
  have "stuck afterEof" by (simp add: afterEof_eq stuck_def errsCap_def)
  then have "\<forall>ts. c2s (relayRun ts afterEof) = Blocked"
    using stuck_run stuck_def by blast
  moreover have "c2s (ClientToServer (Inl EOF) None (relayStart NewSession)) = Looping
   \<and> errs (ClientToServer (Inl EOF) None (relayStart NewSession)) = [EOF]
   \<and> c2s (ClientToServer (Inr handshakePacket) (Some EOF) (relayStart NewSession)) = Looping
   \<and> spawned (relayRun [C2S (Inr handshakePacket) (Some EOF), C2S (Inr loginStartPacket) (Some EOF)]
        (relayStart NewSession))
       = [(handshakePacket, AtFilter), (loginStartPacket, AtFilter)]"
    by (simp add: relayRun_def relayStart_def ClientToServer_def c2sSignal_def errsCap_def)
  moreover have "c2s afterEof = Blocked \<and> engine afterEof = Finished"
    by (simp add: afterEof_eq)
  ultimately show ?thesis by blast
qed

section \<open>The order of the captured packets\<close>

text \<open>
  When each goroutine started for a packet runs before the pump reads the next packet,
  the log has the packets in the order they were read.
\<close>

lemma in_order_when_run_at_once:
  "Packets (sess (relayRun [C2S (Inr handshakePacket) None,
       Go 0 20, Go 0 20, Go 0 20, Go 0 20, Go 0 20,
       C2S (Inr loginStartPacket) None,
       Go 1 30, Go 1 30, Go 1 30, Go 1 30] (relayStart NewSession)))
     = [\<lparr>Packet = handshakePacket, RelatTime = 20\<rparr>, \<lparr>Packet = loginStartPacket, RelatTime = 30\<rparr>]"
  by (simp add: relayRun_def relayStart_def ClientToServer_def runSpawned_def NewSession_def
      handshakePacket_def loginStartPacket_def handshaking_def login_def play_def)

text \<open>
  Claim C9 says that the log has the serverbound packets in the order they were read,
  however the processing of each packet is scheduled. The serverbound pump starts a
  goroutine for every packet (\<^verbatim>\<open>go s.proccessServerbound(packet)\<close>), while the clientbound
  pump calls its observer itself. When the goroutine of the second packet runs before the
  goroutine of the first, the packets are forwarded in the order read and logged in the
  opposite order.
\<close>

theorem capture_order_lost:
  "toServer (relayRun [C2S (Inr handshakePacket) None, C2S (Inr loginStartPacket) None,
       Go 1 20, Go 1 20, Go 1 20, Go 1 20, Go 1 20,
       Go 0 30, Go 0 30, Go 0 30, Go 0 30] (relayStart NewSession))
     = [handshakePacket, loginStartPacket]
   \<and> Packets (sess (relayRun [C2S (Inr handshakePacket) None, C2S (Inr loginStartPacket) None,
       Go 1 20, Go 1 20, Go 1 20, Go 1 20, Go 1 20,
       Go 0 30, Go 0 30, Go 0 30, Go 0 30] (relayStart NewSession)))
     = [\<lparr>Packet = loginStartPacket, RelatTime = 20\<rparr>, \<lparr>Packet = handshakePacket, RelatTime = 30\<rparr>]"
  by (simp add: relayRun_def relayStart_def ClientToServer_def runSpawned_def NewSession_def
      handshakePacket_def loginStartPacket_def handshaking_def login_def play_def)

section \<open>The persisted record\<close>

subsection \<open>Base64 decodes what it encodes\<close>

lemma b64chars_length: "length b64chars = 64"
  by (simp add: b64chars_def)

lemma b64chars_distinct: "distinct b64chars"
  by (simp add: b64chars_def)

lemma b64index_b64char: "i < 64 \<Longrightarrow> b64index (b64char i) = Some i"
  unfolding b64index_def b64char_def
  using map_of_zip_nth [of b64chars "[0..<64]" i] b64chars_length b64chars_distinct by simp

lemma b64char_in: "i < 64 \<Longrightarrow> b64char i \<in> set b64chars"
  unfolding b64char_def using b64chars_length by simp

lemma b64char_plain: "i < 64 \<Longrightarrow> b64char i \<noteq> CHR ''='' \<and> \<not> isLineBreak (b64char i)"
proof -
  have "CHR ''='' \<notin> set b64chars" "CHR 0x0A \<notin> set b64chars" "CHR 0x0D \<notin> set b64chars"
    by (simp_all add: b64chars_def)
  moreover assume "i < 64"
  then have "b64char i \<in> set b64chars" by (rule b64char_in)
  ultimately show ?thesis by (auto simp: isLineBreak_def)
qed

lemma sextet_hi:
  "(y::nat) < 256 \<Longrightarrow> y div 16 < 16"
  "(y::nat) < 256 \<Longrightarrow> y div 64 < 4"
  "(y::nat) < 256 \<Longrightarrow> y div 4 < 64"
  by (simp_all add: less_mult_imp_div_less)

lemma sextet_bounds:
  "(x::nat) < 256 \<Longrightarrow> (y::nat) < 256 \<Longrightarrow>
   x div 4 < 64 \<and> (x mod 4) * 16 + y div 16 < 64 \<and> (x mod 16) * 4 + y div 64 < 64
   \<and> y mod 64 < 64 \<and> (x mod 4) * 16 < 64 \<and> (x mod 16) * 4 < 64"
  using sextet_hi [of y] sextet_hi [of x]
  by (auto intro: mod_less_divisor)

lemma join1: "(y::nat) < 256 \<Longrightarrow> (x div 4) * 4 + ((x mod 4) * 16 + y div 16) div 16 = x"
  using sextet_hi(1) [of y] by simp

lemma join2:
  "(y::nat) < 256 \<Longrightarrow> (z::nat) < 256 \<Longrightarrow>
   (((x mod 4) * 16 + y div 16) mod 16) * 16 + ((y mod 16) * 4 + z div 64) div 4 = y"
  using sextet_hi(2) [of z] sextet_hi(1) [of y] by simp

lemma join3: "(z::nat) < 256 \<Longrightarrow> (((y mod 16) * 4 + z div 64) mod 4) * 64 + z mod 64 = z"
  using sextet_hi(2) [of z] by simp

lemma join1': "(x div 4) * 4 + ((x mod 4) * 16) div 16 = (x::nat)"
  by simp

lemma join2':
  "(y::nat) < 256 \<Longrightarrow> (((x mod 4) * 16 + y div 16) mod 16) * 16 + ((y mod 16) * 4) div 4 = y"
  using sextet_hi(1) [of y] by simp

lemma byte_lt: "unat (a :: byte) < 256"
  using unsigned_less [of a] by simp

lemma unbase64Groups_base64: "unbase64Groups (base64 bs) = Some bs"
proof (induction bs rule: base64.induct)
  case (1 a b c rest)
  note bd = sextet_bounds [OF byte_lt [of a] byte_lt [of b]] sextet_bounds [OF byte_lt [of b] byte_lt [of c]]
  have p: "b64index (b64char (unat a div 4)) = Some (unat a div 4)"
    "b64index (b64char ((unat a mod 4) * 16 + unat b div 16)) = Some ((unat a mod 4) * 16 + unat b div 16)"
    "b64index (b64char ((unat b mod 16) * 4 + unat c div 64)) = Some ((unat b mod 16) * 4 + unat c div 64)"
    "b64index (b64char (unat c mod 64)) = Some (unat c mod 64)"
    using bd by (simp_all add: b64index_b64char)
  have q: "b64char ((unat b mod 16) * 4 + unat c div 64) \<noteq> CHR ''=''"
    "b64char (unat c mod 64) \<noteq> CHR ''=''"
    using bd by (simp_all add: b64char_plain)
  have j: "(of_nat ((unat a div 4) * 4 + ((unat a mod 4) * 16 + unat b div 16) div 16) :: byte) = a"
    "(of_nat ((((unat a mod 4) * 16 + unat b div 16) mod 16) * 16
        + ((unat b mod 16) * 4 + unat c div 64) div 4) :: byte) = b"
    "(of_nat ((((unat b mod 16) * 4 + unat c div 64) mod 4) * 64 + unat c mod 64) :: byte) = c"
    using join1 [OF byte_lt [of b], of "unat a"] join2 [OF byte_lt [of b] byte_lt [of c], of "unat a"]
      join3 [OF byte_lt [of c], of "unat b"]
    by simp_all
  show ?case
    using "1.IH" by (simp only: base64.simps append_Cons append_Nil unbase64Groups.simps p q j
        prod.case option.case if_False)
next
  case (2 a b)
  note bd = sextet_bounds [OF byte_lt [of a] byte_lt [of b]] sextet_bounds [OF byte_lt [of b] byte_lt [of b]]
  have p: "b64index (b64char (unat a div 4)) = Some (unat a div 4)"
    "b64index (b64char ((unat a mod 4) * 16 + unat b div 16)) = Some ((unat a mod 4) * 16 + unat b div 16)"
    "b64index (b64char ((unat b mod 16) * 4)) = Some ((unat b mod 16) * 4)"
    using bd by (simp_all add: b64index_b64char)
  have q: "b64char ((unat b mod 16) * 4) \<noteq> CHR ''=''"
    using bd by (simp add: b64char_plain)
  have j: "(of_nat ((unat a div 4) * 4 + ((unat a mod 4) * 16 + unat b div 16) div 16) :: byte) = a"
    "(of_nat ((((unat a mod 4) * 16 + unat b div 16) mod 16) * 16
        + ((unat b mod 16) * 4) div 4) :: byte) = b"
    using join1 [OF byte_lt [of b], of "unat a"] join2' [OF byte_lt [of b], of "unat a"]
    by simp_all
  show ?case
    by (simp only: base64.simps unbase64Groups.simps p q j prod.case option.case if_False
        if_True simp_thms)
next
  case (3 a)
  note bd = sextet_bounds [OF byte_lt [of a] byte_lt [of a]]
  have p: "b64index (b64char (unat a div 4)) = Some (unat a div 4)"
    "b64index (b64char ((unat a mod 4) * 16)) = Some ((unat a mod 4) * 16)"
    using bd by (simp_all add: b64index_b64char)
  have j: "(of_nat ((unat a div 4) * 4 + ((unat a mod 4) * 16) div 16) :: byte) = a"
    using join1' [of "unat a"] by simp
  show ?case
    by (simp only: base64.simps unbase64Groups.simps p j prod.case option.case if_True simp_thms)
next
  case 4
  show ?case by simp
qed

lemma pad_plain: "\<not> isLineBreak (CHR ''='')"
  by (simp add: isLineBreak_def)

lemma base64_plain: "c \<in> set (base64 bs) \<Longrightarrow> \<not> isLineBreak c"
proof (induction bs rule: base64.induct)
  case (1 a b c' rest)
  note bd = sextet_bounds [OF byte_lt [of a] byte_lt [of b]] sextet_bounds [OF byte_lt [of b] byte_lt [of c']]
  show ?case using "1.prems" "1.IH" bd by (auto simp: b64char_plain)
next
  case (2 a b)
  note bd = sextet_bounds [OF byte_lt [of a] byte_lt [of b]] sextet_bounds [OF byte_lt [of b] byte_lt [of b]]
  show ?case using "2.prems" bd by (auto simp: b64char_plain pad_plain)
next
  case (3 a)
  note bd = sextet_bounds [OF byte_lt [of a] byte_lt [of a]]
  show ?case using "3.prems" bd by (auto simp: b64char_plain pad_plain)
next
  case 4
  then show ?case by simp
qed

lemma unbase64_base64: "unbase64 (base64 bs) = Some bs"
proof -
  have "filter (\<lambda>c. \<not> isLineBreak c) (base64 bs) = base64 bs"
    using base64_plain [of _ bs] by (simp add: filter_id_conv)
  then show ?thesis by (simp add: unbase64_def unbase64Groups_base64)
qed

subsection \<open>Reading gives back what was written\<close>

lemma sameKey_names:
  "sameKey ''ID'' ''ID''" "\<not> sameKey ''Data'' ''ID''" "sameKey ''Data'' ''Data''"
  "sameKey ''Packet'' ''Packet''" "\<not> sameKey ''RelatTime'' ''Packet''"
  "sameKey ''RelatTime'' ''RelatTime''"
  "sameKey ''Packets'' ''Packets''"
  "\<not> sameKey ''LoginX'' ''Packets''" "sameKey ''LoginX'' ''LoginX''"
  "\<not> sameKey ''LoginY'' ''Packets''" "\<not> sameKey ''LoginY'' ''LoginX''" "sameKey ''LoginY'' ''LoginY''"
  "\<not> sameKey ''LoginZ'' ''Packets''" "\<not> sameKey ''LoginZ'' ''LoginX''"
  "\<not> sameKey ''LoginZ'' ''LoginY''" "sameKey ''LoginZ'' ''LoginZ''"
  by (simp_all add: sameKey_def lowerChar_def)

lemma inInt64_sint: "inInt64 (sint (w :: 64 word))"
  using sint_ge [of w] sint_lt [of w] by (simp add: inInt64_def)

lemma unmarshalPacket_marshalPacket:
  "inInt32 (ID p) \<Longrightarrow> unmarshalPacket nt (marshalPacket p) q = Inr p"
  by (simp add: marshalPacket_def packetField_def sameKey_names unbase64_base64)

lemma unmarshalRecorded_marshalRecorded:
  "inInt32 (ID (Packet r)) \<Longrightarrow> unmarshalRecorded nt (marshalRecorded r) q = Inr r"
  by (simp add: marshalRecorded_def recordedField_def sameKey_names
      unmarshalPacket_marshalPacket inInt64_sint)

lemma unmarshalElements_marshalRecorded:
  "\<forall>r \<in> set rs. inInt32 (ID (Packet r)) \<Longrightarrow>
   unmarshalElements nt (map marshalRecorded rs) = Inr rs"
  by (induction rs) (simp_all add: unmarshalRecorded_marshalRecorded)

lemma unmarshalPackets_marshalPackets:
  "\<forall>r \<in> set rs. inInt32 (ID (Packet r)) \<Longrightarrow>
   unmarshalPackets nt (marshalPackets rs) = Inr rs"
  by (simp add: marshalPackets_def unmarshalElements_marshalRecorded)

lemma jsonMarshal_finite:
  "isFinite (LoginX s) \<Longrightarrow> isFinite (LoginY s) \<Longrightarrow> isFinite (LoginZ s) \<Longrightarrow>
   jsonMarshal s = Inr (JObject [(''Packets'', marshalPackets (Packets s)),
       (''LoginX'', JFloat (LoginX s)), (''LoginY'', JFloat (LoginY s)),
       (''LoginZ'', JFloat (LoginZ s))])"
  by (simp add: jsonMarshal_def marshalFloat_def)

lemma jsonMarshal_not_finite:
  "\<not> (isFinite (LoginX s) \<and> isFinite (LoginY s) \<and> isFinite (LoginZ s)) \<Longrightarrow>
   jsonMarshal s = Inl UnsupportedValue"
  by (auto simp: jsonMarshal_def marshalFloat_def)

lemma jsonUnmarshal_jsonMarshal:
  "jsonMarshal s = Inr doc \<Longrightarrow> \<forall>r \<in> set (Packets s). inInt32 (ID (Packet r)) \<Longrightarrow>
   jsonUnmarshal nt doc t
     = Inr (t\<lparr>Packets := Packets s, LoginX := LoginX s, LoginY := LoginY s, LoginZ := LoginZ s\<rparr>)"
  by (auto simp: jsonMarshal_def marshalFloat_def sessionField_def sameKey_names
      unmarshalPackets_marshalPackets split: if_splits)

lemma NewReplaySession_fresh:
  "rsess (NewReplaySession f)
     = freshReplaySession\<lparr>Packets := Packets f, LoginX := LoginX f, LoginY := LoginY f,
         LoginZ := LoginZ f\<rparr>"
  by (simp add: NewReplaySession_def freshReplaySession_def)

lemma nanSession_eq:
  "nanSession = playing\<lparr>Packets := [\<lparr>Packet = chatPacket, RelatTime = 5\<rparr>],
      LoginX := 0x7FF8000000000000, LoginY := 0x4050000000000000, LoginZ := 0xC014000000000000\<rparr>"
  by (simp add: nanSession_def nanPosition_def chatPacket_def playing_def NewSession_def
      proccessServerbound_def proccessClientbound_def setStateFromServerbound_def
      setStateFromClientbound_def Let_def play_def login_def handshaking_def isZero_def
      scanLoginPosition_def readDouble_def readLong_def readN_def be64_def)

lemma goodSession_eq:
  "goodSession = playing\<lparr>Packets := [\<lparr>Packet = chatPacket, RelatTime = 5\<rparr>],
      LoginX := 0x4024000000000000, LoginY := 0x4050000000000000, LoginZ := 0xC014000000000000\<rparr>"
  by (simp add: goodSession_def laterPosition_def chatPacket_def playing_def NewSession_def
      proccessServerbound_def proccessClientbound_def setStateFromServerbound_def
      setStateFromClientbound_def Let_def play_def login_def handshaking_def isZero_def
      scanLoginPosition_def readDouble_def readLong_def readN_def be64_def)

lemma isFinite_examples:
  "\<not> isFinite 0x7FF8000000000000" "isFinite 0" "isFinite 0x4024000000000000"
  "isFinite 0x4050000000000000" "isFinite 0xC014000000000000"
  by (simp_all add: isFinite_def drop_bit_eq_div)

text \<open>
  Claim C3, as the code has it. For a session whose three login coordinates are finite
  (and whose opcodes are in the range of \<^verbatim>\<open>int32\<close>, which the program's type ensures),
  \<^verbatim>\<open>SaveToFile\<close>, when the file is created and written without error, stores a document
  under the file name, and \<^verbatim>\<open>ReadPacketsFromFile\<close> of that file into any session gives
  that session with the saved packet list (every entry with its opcode, its payload bytes
  and its relative time, in the same order) and the saved login coordinates. For a
  session with a coordinate that is NaN or an infinity, \<^verbatim>\<open>SaveToFile\<close> logs that it
  cannot marshal and leaves the files as they were.
\<close>

theorem persist_then_load:
  "(isFinite (LoginX s) \<and> isFinite (LoginY s) \<and> isFinite (LoginZ s)
      \<and> (\<forall>r \<in> set (Packets s). inInt32 (ID (Packet r))) \<longrightarrow>
      (\<exists>doc. SaveToFile True True filename s files = (None, files(filename \<mapsto> Document doc)))
      \<and> ReadPacketsFromFile nt True True filename t (snd (SaveToFile True True filename s files))
          = Inr (t\<lparr>Packets := Packets s, LoginX := LoginX s, LoginY := LoginY s,
                   LoginZ := LoginZ s\<rparr>))
   \<and> (\<not> (isFinite (LoginX s) \<and> isFinite (LoginY s) \<and> isFinite (LoginZ s)) \<longrightarrow>
      SaveToFile created written filename s files
        = (Some ''Unable to marshal recorded packets to json'', files))"
proof -
  have a: "isFinite (LoginX s) \<and> isFinite (LoginY s) \<and> isFinite (LoginZ s)
      \<and> (\<forall>r \<in> set (Packets s). inInt32 (ID (Packet r))) \<longrightarrow>
      (\<exists>doc. SaveToFile True True filename s files = (None, files(filename \<mapsto> Document doc)))
      \<and> ReadPacketsFromFile nt True True filename t (snd (SaveToFile True True filename s files))
          = Inr (t\<lparr>Packets := Packets s, LoginX := LoginX s, LoginY := LoginY s,
                   LoginZ := LoginZ s\<rparr>)"
  proof
    assume h: "isFinite (LoginX s) \<and> isFinite (LoginY s) \<and> isFinite (LoginZ s)
      \<and> (\<forall>r \<in> set (Packets s). inInt32 (ID (Packet r)))"
    then obtain doc where m: "jsonMarshal s = Inr doc"
      using jsonMarshal_finite [of s] by blast
    have u: "jsonUnmarshal nt doc t
        = Inr (t\<lparr>Packets := Packets s, LoginX := LoginX s, LoginY := LoginY s, LoginZ := LoginZ s\<rparr>)"
      using jsonUnmarshal_jsonMarshal [OF m, of nt t] h by blast
    have sv: "SaveToFile True True filename s files = (None, files(filename \<mapsto> Document doc))"
      by (simp add: SaveToFile_def m)
    have rd: "ReadPacketsFromFile nt True True filename t (files(filename \<mapsto> Document doc))
        = Inr (t\<lparr>Packets := Packets s, LoginX := LoginX s, LoginY := LoginY s, LoginZ := LoginZ s\<rparr>)"
      by (simp add: ReadPacketsFromFile_def u)
    show "(\<exists>doc. SaveToFile True True filename s files = (None, files(filename \<mapsto> Document doc)))
      \<and> ReadPacketsFromFile nt True True filename t (snd (SaveToFile True True filename s files))
          = Inr (t\<lparr>Packets := Packets s, LoginX := LoginX s, LoginY := LoginY s,
                   LoginZ := LoginZ s\<rparr>)"
      using sv rd by auto
  qed
  have b: "\<not> (isFinite (LoginX s) \<and> isFinite (LoginY s) \<and> isFinite (LoginZ s)) \<longrightarrow>
      SaveToFile created written filename s files
        = (Some ''Unable to marshal recorded packets to json'', files)"
    using jsonMarshal_not_finite [of s] by (auto simp: SaveToFile_def)
  show ?thesis using a b by blast
qed

theorem persist_then_load_witness:
  "ReadPacketsFromFile exampleNumberText True True ''packets.json'' freshReplaySession
      (snd (SaveToFile True True ''packets.json'' goodSession Map.empty))
     = Inr (freshReplaySession\<lparr>Packets := [\<lparr>Packet = chatPacket, RelatTime = 5\<rparr>],
         LoginX := 0x4024000000000000, LoginY := 0x4050000000000000,
         LoginZ := 0xC014000000000000\<rparr>)
   \<and> SaveToFile True False ''packets.json'' nanSession Map.empty
     = (Some ''Unable to marshal recorded packets to json'', Map.empty)"
proof -
  have h: "isFinite (LoginX goodSession) \<and> isFinite (LoginY goodSession)
      \<and> isFinite (LoginZ goodSession)
      \<and> (\<forall>r \<in> set (Packets goodSession). inInt32 (ID (Packet r)))"
    by (simp add: goodSession_eq isFinite_examples chatPacket_def inInt32_def)
  have c: "ReadPacketsFromFile exampleNumberText True True ''packets.json'' freshReplaySession
      (snd (SaveToFile True True ''packets.json'' goodSession Map.empty))
     = Inr (freshReplaySession\<lparr>Packets := Packets goodSession, LoginX := LoginX goodSession,
         LoginY := LoginY goodSession, LoginZ := LoginZ goodSession\<rparr>)"
    using persist_then_load [where s = goodSession and filename = "''packets.json''"
        and files = Map.empty and nt = exampleNumberText and t = freshReplaySession] h
    by blast
  have h': "\<not> (isFinite (LoginX nanSession) \<and> isFinite (LoginY nanSession)
      \<and> isFinite (LoginZ nanSession))"
    by (simp add: nanSession_eq isFinite_examples)
  have c': "SaveToFile True False ''packets.json'' nanSession Map.empty
     = (Some ''Unable to marshal recorded packets to json'', Map.empty)"
    using persist_then_load [where s = nanSession and filename = "''packets.json''"
        and files = Map.empty and created = True and written = False] h'
    by blast
  show ?thesis using c c' by (simp add: goodSession_eq)
qed

text \<open>
  Claim C3 as the spec states it, for every session record, fails: a session in \<^verbatim>\<open>play\<close>
  records a chat packet and sees a position packet whose first coordinate is a NaN, which
  it stores; \<^verbatim>\<open>SaveToFile\<close> logs that it cannot marshal and writes no file, and
  \<^verbatim>\<open>ReadPacketsFromFile\<close> ends the program because there is no file to open.
\<close>

theorem nan_record_not_persisted:
  "LoginX nanSession = 0x7FF8000000000000
   \<and> Packets nanSession = [\<lparr>Packet = chatPacket, RelatTime = 5\<rparr>]
   \<and> SaveToFile True True ''packets.json'' nanSession Map.empty
     = (Some ''Unable to marshal recorded packets to json'', Map.empty)
   \<and> ReadPacketsFromFile exampleNumberText True True ''packets.json'' freshReplaySession
        (snd (SaveToFile True True ''packets.json'' nanSession Map.empty))
     = Inl ''Unable to open recorded packets file''"
proof -
  have m: "jsonMarshal nanSession = Inl UnsupportedValue"
    by (rule jsonMarshal_not_finite) (simp add: nanSession_eq isFinite_examples)
  have sv: "SaveToFile True True ''packets.json'' nanSession Map.empty
     = (Some ''Unable to marshal recorded packets to json'', Map.empty)"
    by (simp add: SaveToFile_def m)
  show ?thesis
    by (simp add: sv) (simp add: nanSession_eq ReadPacketsFromFile_def)
qed

end
